theory Spec2Isabelle
  imports Complex_Main
begin

section \<open>The Ising model of PyFolding (pyfolding/ising.py)\<close>

text \<open>
  A shallow embedding of \<^verbatim>\<open>src/pyfolding/ising.py\<close>. Numbers are the reals, and the
  methods of the partition function are given a second time over the range of float64
  (overflow to \<open>inf\<close>, \<open>nan\<close>; functions with the suffix \<open>_f64\<close>); the rounding of
  floating point is not modelled. The thermal energy
  \<^verbatim>\<open>constants.RT\<close> lives in a module outside the file, so it is a parameter \<open>RT\<close> of
  every function that reads it. Exceptions are values of the type \<open>error\<close>.
\<close>

subsection \<open>Errors\<close>

datatype error =
    TypeError
  | ValueError
  | IndexError
  | StopIteration
  | NotANumber
    \<comment> \<open>not an exception: numpy's \<open>nan\<close> for \<open>0.0 / 0\<close> (a warning only), which the
        reals cannot represent\<close>

subsection \<open>Module constants and the two weight functions\<close>

definition PARAMETER_LABELS :: "string list" where
  "PARAMETER_LABELS = [''DG_i'', ''DG_ij'', ''m_i'', ''m_ij'']"

definition ACCEPTABLE_BOUNDS :: "(real \<times> real) list" where
  "ACCEPTABLE_BOUNDS = [(-2, 15), (-15, 2), (-3, -(1/100)), (-3, -(1/100))]"

definition free_energy_m :: "real \<Rightarrow> real \<Rightarrow> real \<Rightarrow> real \<Rightarrow> real" where
  "free_energy_m RT x DeltaG m_value = exp (- (DeltaG - m_value * x) / RT)"

definition free_energy :: "real \<Rightarrow> real \<Rightarrow> real \<Rightarrow> real \<Rightarrow> real" where
  "free_energy RT x DeltaG m_value = exp (- DeltaG / RT)"

subsection \<open>IsingDomain and its subclasses\<close>

text \<open>
  \<open>q_func\<close> is a lambda stored in the instance; only two lambdas occur in the file, so
  the field holds which of the two it is. \<open>bounds_tbl\<close> is the private \<^verbatim>\<open>__bounds\<close>.
  The weight functions \<^verbatim>\<open>__kappa\<close> and \<^verbatim>\<open>__tau\<close> are always the defaults, since every
  subclass calls \<^verbatim>\<open>IsingDomain.__init__(self)\<close> without arguments.
\<close>

datatype q_form = ChainMatrix | CapMatrix

record IsingDomain =
  name :: string
  DG_i :: real
  DG_ij :: real
  m_i :: real
  m_ij :: real
  used_variables :: "nat list"
  bounds_tbl :: "(real \<times> real) list"
  q_func :: q_form

text \<open>The base constructor; the attribute \<open>name\<close> is set by the subclasses only.\<close>

definition IsingDomain_init :: IsingDomain where
  "IsingDomain_init =
     \<lparr>name = [], DG_i = 2, DG_ij = -4, m_i = -(1/2), m_ij = -(1/2),
      used_variables = [0, 1, 2], bounds_tbl = ACCEPTABLE_BOUNDS, q_func = ChainMatrix\<rparr>"

datatype domain_class =
    HelixDomain | RepeatDomain | MutantRepeatDomain | LoopDomain | MutantLoopDomain
  | CapDomain | MutantCapDomain

text \<open>\<open>instantiate c\<close> is the call \<^verbatim>\<open>c()\<close> of a class of the module.\<close>

fun instantiate :: "domain_class \<Rightarrow> IsingDomain" where
  "instantiate HelixDomain = IsingDomain_init\<lparr>name := ''Helix''\<rparr>"
| "instantiate RepeatDomain = IsingDomain_init\<lparr>name := ''Repeat''\<rparr>"
| "instantiate MutantRepeatDomain = IsingDomain_init\<lparr>name := ''MutantRepeat''\<rparr>"
| "instantiate LoopDomain = IsingDomain_init\<lparr>name := ''Loop''\<rparr>"
| "instantiate MutantLoopDomain = IsingDomain_init\<lparr>name := ''MutantLoop''\<rparr>"
| "instantiate CapDomain =
     IsingDomain_init\<lparr>name := ''Cap'', q_func := CapMatrix, used_variables := [0, 2]\<rparr>"
| "instantiate MutantCapDomain =
     IsingDomain_init\<lparr>name := ''MutantCap'', q_func := CapMatrix, used_variables := [0, 2]\<rparr>"

definition kappa :: "real \<Rightarrow> IsingDomain \<Rightarrow> real \<Rightarrow> real" where
  "kappa RT d x = free_energy_m RT x (DG_i d) (m_i d)"

definition tau :: "real \<Rightarrow> IsingDomain \<Rightarrow> real \<Rightarrow> real" where
  "tau RT d x = free_energy RT x (DG_ij d) (m_ij d)"

text \<open>A 2x2 matrix is the pair of its rows.\<close>

type_synonym vec2 = "real \<times> real"
type_synonym mat2 = "vec2 \<times> vec2"

definition q_i :: "real \<Rightarrow> IsingDomain \<Rightarrow> real \<Rightarrow> real \<Rightarrow> mat2" where
  "q_i RT d x folded =
     (case q_func d of
        ChainMatrix \<Rightarrow> ((kappa RT d x * tau RT d x, folded), (kappa RT d x, folded))
      | CapMatrix \<Rightarrow> ((kappa RT d x, folded), (kappa RT d x, folded)))"

text \<open>
  The properties \<open>bounds\<close> and \<open>labels\<close> index the two tables by \<open>used_variables\<close>.
  Every class of the module has \<open>used_variables\<close> within \<open>0..3\<close> (lemma
  \<open>instantiate_used_variables\<close>), where the index is in range.
\<close>

definition IsingDomain_bounds :: "IsingDomain \<Rightarrow> (real \<times> real) list" where
  "IsingDomain_bounds d = map (\<lambda>i. bounds_tbl d ! i) (used_variables d)"

definition labels :: "IsingDomain \<Rightarrow> string list" where
  "labels d = map (\<lambda>i. PARAMETER_LABELS ! i) (used_variables d)"

subsection \<open>IsingPartitionFunction\<close>

text \<open>
  Objects live in a store, a list of domain instances addressed by position; a topology
  is a list of addresses. The constructor receives any Python value: something that is
  not a list, or a list whose elements are references to domain instances or other
  objects.
\<close>

datatype pyobj = DomainRef nat | OtherObject

datatype pyarg = NotAList | PyList "pyobj list"

record IsingPartitionFunction =
  topology :: "nat list"
  n :: nat

definition init_topology :: "nat list \<Rightarrow> IsingPartitionFunction" where
  "init_topology t = \<lparr>topology = t, n = length t\<rparr>"

text \<open>The loop over the topology that raises at the first element that is no domain.\<close>

fun check_topology :: "pyobj list \<Rightarrow> error + nat list" where
  "check_topology [] = Inr []"
| "check_topology (DomainRef a # os) =
     (case check_topology os of Inl e \<Rightarrow> Inl e | Inr as \<Rightarrow> Inr (a # as))"
| "check_topology (OtherObject # os) = Inl TypeError"

fun IsingPartitionFunction_init :: "pyarg \<Rightarrow> error + IsingPartitionFunction" where
  "IsingPartitionFunction_init NotAList = Inl TypeError"
| "IsingPartitionFunction_init (PyList os) =
     (case check_topology os of Inl e \<Rightarrow> Inl e | Inr t \<Rightarrow> Inr (init_topology t))"

text \<open>
  The numeric methods, on the topology with its addresses already read from the store
  (a list of domain values). \<open>row_times v M\<close> is the product of a row vector and a
  matrix. \<open>chain\<close> is the loop of \<open>partition\<close>: \<^verbatim>\<open>folded[i]\<close> raises when the indicator
  vector is shorter than the topology. These functions compute over the reals, where
  no product overflows; \<open>partition_f64\<close> and \<open>theta_f64\<close> below are the same methods
  over the range of float64.
\<close>

definition row_times :: "vec2 \<Rightarrow> mat2 \<Rightarrow> vec2" where
  "row_times v M =
     (fst v * fst (fst M) + snd v * fst (snd M), fst v * snd (fst M) + snd v * snd (snd M))"

fun chain :: "real \<Rightarrow> real \<Rightarrow> vec2 \<Rightarrow> IsingDomain list \<Rightarrow> real list \<Rightarrow> error + vec2" where
  "chain RT x q [] fs = Inr q"
| "chain RT x q (d # ds) [] = Inl IndexError"
| "chain RT x q (d # ds) (f # fs) = chain RT x (row_times q (q_i RT d x f)) ds fs"

definition partition :: "real \<Rightarrow> IsingDomain list \<Rightarrow> real \<Rightarrow> real list \<Rightarrow> error + real" where
  "partition RT topo x folded =
     (let folded' = (if folded = [] then replicate (length topo) 1 else folded) in
      case chain RT x (0, 1) topo folded' of
        Inl e \<Rightarrow> Inl e
      | Inr q \<Rightarrow> Inr (fst q * 1 + snd q * 1))"

definition subpartition :: "real \<Rightarrow> IsingDomain list \<Rightarrow> real \<Rightarrow> nat \<Rightarrow> bool \<Rightarrow> error + real" where
  "subpartition RT topo x i rev_flag =
     (if i < length topo then
        let folded = (replicate (length topo) 1)[i := 0];
            folded' = (if rev_flag then map (\<lambda>f. 1 - f) folded else folded)
        in partition RT topo x folded'
      else Inl IndexError)"

text \<open>The sum of \<^verbatim>\<open>[self.subpartition(x, i) for i in xrange(self.n)]\<close>.\<close>

fun sum_subpartitions :: "real \<Rightarrow> IsingDomain list \<Rightarrow> real \<Rightarrow> nat list \<Rightarrow> error + real" where
  "sum_subpartitions RT topo x [] = Inr 0"
| "sum_subpartitions RT topo x (i # is) =
     (case subpartition RT topo x i False of
        Inl e \<Rightarrow> Inl e
      | Inr q \<Rightarrow>
          (case sum_subpartitions RT topo x is of
             Inl e \<Rightarrow> Inl e
           | Inr s \<Rightarrow> Inr (q + s)))"

text \<open>
  \<open>theta\<close>; for an empty topology the quotient is \<open>0.0 / 0\<close>, which numpy evaluates to
  \<open>nan\<close>.
\<close>

definition theta :: "real \<Rightarrow> IsingDomain list \<Rightarrow> real \<Rightarrow> error + real" where
  "theta RT topo x =
     (case partition RT topo x [] of
        Inl e \<Rightarrow> Inl e
      | Inr q_n \<Rightarrow>
          (case sum_subpartitions RT topo x [0..<length topo] of
             Inl e \<Rightarrow> Inl e
           | Inr sum_q_i \<Rightarrow>
               if real (length topo) * q_n = 0 then Inl NotANumber
               else Inr (1 - sum_q_i / (real (length topo) * q_n))))"

definition subpopulation :: "real \<Rightarrow> IsingDomain list \<Rightarrow> real \<Rightarrow> nat \<Rightarrow> error + real" where
  "subpopulation RT topo x i =
     (case partition RT topo x [] of
        Inl e \<Rightarrow> Inl e
      | Inr q_n \<Rightarrow>
          (case subpartition RT topo x i True of
             Inl e \<Rightarrow> Inl e
           | Inr q \<Rightarrow> if q_n = 0 then Inl NotANumber else Inr (1 - q / q_n)))"

subsection \<open>GlobalFitWrapper\<close>

text \<open>
  A curve is an instance of \<^verbatim>\<open>core.EquilibriumDenaturationCurve\<close>, a class outside the
  file; the wrapper reads its arrays \<open>x\<close> and \<open>y\<close> only. \<open>append\<close> may receive any
  object in its place.
\<close>

record curve =
  curve_ID :: string
  curve_x :: "real list"
  curve_y :: "real list"

datatype curve_arg = EquilibriumDenaturationCurve curve | NotACurve

text \<open>The dictionary \<^verbatim>\<open>{'n': ..., 'curve': ..., 'partition': ...}\<close> of a protein.\<close>

record protein =
  protein_n :: nat
  protein_curve :: curve
  protein_partition :: IsingPartitionFunction

text \<open>
  The wrapper with the object store it works on: \<open>store\<close> holds the domain instances,
  \<open>domains\<close> and the topologies hold addresses into it. Two references are the same
  instance exactly when they are the same address.
\<close>

record GlobalFitWrapper =
  store :: "IsingDomain list"
  proteins :: "protein list"
  domains :: "nat list"
  domain_types :: "domain_class list"

definition GlobalFitWrapper_init :: GlobalFitWrapper where
  "GlobalFitWrapper_init = \<lparr>store = [], proteins = [], domains = [], domain_types = []\<rparr>"

text \<open>\<^verbatim>\<open>list.index\<close>, called only for an element the list holds.\<close>

fun index :: "'a list \<Rightarrow> 'a \<Rightarrow> nat" where
  "index [] c = 0"
| "index (t # ts) c = (if t = c then 0 else Suc (index ts c))"

text \<open>
  The loop of \<open>append\<close> over the topology. A class not yet in \<open>domain_types\<close> is
  instantiated: the new instance gets the next free address of the store.
\<close>

fun setup_domains ::
  "GlobalFitWrapper \<Rightarrow> domain_class list \<Rightarrow> nat list \<Rightarrow> (error + nat list) \<times> GlobalFitWrapper"
where
  "setup_domains s [] q_topology = (Inr q_topology, s)"
| "setup_domains s (domain # rest) q_topology =
     (if domain \<notin> set (domain_types s) then
        let new_domain = length (store s);
            s' = s\<lparr>store := store s @ [instantiate domain],
                   domains := domains s @ [new_domain],
                   domain_types := domain_types s @ [domain]\<rparr>
        in setup_domains s' rest (q_topology @ [new_domain])
      else
        let k = index (domain_types s) domain in
        if k < length (domains s)
        then setup_domains s rest (q_topology @ [domains s ! k])
        else (Inl IndexError, s))"

fun GlobalFitWrapper_append ::
  "GlobalFitWrapper \<Rightarrow> curve_arg \<Rightarrow> domain_class list \<Rightarrow> (error + unit) \<times> GlobalFitWrapper"
where
  "GlobalFitWrapper_append s NotACurve topo = (Inl TypeError, s)"
| "GlobalFitWrapper_append s (EquilibriumDenaturationCurve c) topo =
     (case setup_domains s topo [] of
        (Inl e, s') \<Rightarrow> (Inl e, s')
      | (Inr q_topology, s') \<Rightarrow>
          (case IsingPartitionFunction_init (PyList (map DomainRef q_topology)) of
             Inl e \<Rightarrow> (Inl e, s')
           | Inr q \<Rightarrow>
               (Inr (),
                s'\<lparr>proteins := proteins s' @
                   [\<lparr>protein_n = length q_topology, protein_curve = c,
                     protein_partition = q\<rparr>]\<rparr>)))"

text \<open>A sequence of \<open>append\<close> calls on one wrapper; it stops at the first that raises.\<close>

fun append_all ::
  "GlobalFitWrapper \<Rightarrow> (curve_arg \<times> domain_class list) list \<Rightarrow> (error + unit) \<times> GlobalFitWrapper"
where
  "append_all s [] = (Inr (), s)"
| "append_all s (ct # cts) =
     (case GlobalFitWrapper_append s (fst ct) (snd ct) of
        (Inl e, s') \<Rightarrow> (Inl e, s')
      | (Inr u, s') \<Rightarrow> append_all s' cts)"

text \<open>
  \<^verbatim>\<open>setattr(domain, p, v)\<close> for a label \<open>p\<close>; a name other than the four parameters would
  create an attribute that no method reads.
\<close>

definition setattr :: "IsingDomain \<Rightarrow> string \<Rightarrow> real \<Rightarrow> IsingDomain" where
  "setattr d p v =
     (if p = ''DG_i'' then d\<lparr>DG_i := v\<rparr>
      else if p = ''DG_ij'' then d\<lparr>DG_ij := v\<rparr>
      else if p = ''m_i'' then d\<lparr>m_i := v\<rparr>
      else if p = ''m_ij'' then d\<lparr>m_ij := v\<rparr>
      else d)"

definition getattr :: "IsingDomain \<Rightarrow> string \<Rightarrow> real" where
  "getattr d p =
     (if p = ''DG_i'' then DG_i d
      else if p = ''DG_ij'' then DG_ij d
      else if p = ''m_i'' then m_i d
      else m_ij d)"

text \<open>
  The two assignment loops of \<open>__call__\<close>. The iterator \<open>p_val\<close> is the list of the
  values not yet consumed; \<^verbatim>\<open>p_val.next()\<close> on the empty list raises StopIteration
  (the result \<open>None\<close>), and the assignments made before stay in the store.
\<close>

fun assign_labels ::
  "IsingDomain list \<Rightarrow> nat \<Rightarrow> string list \<Rightarrow> real list \<Rightarrow> IsingDomain list \<times> real list option"
where
  "assign_labels h a [] p_val = (h, Some p_val)"
| "assign_labels h a (p # ps) [] = (h, None)"
| "assign_labels h a (p # ps) (v # p_val) = assign_labels (h[a := setattr (h ! a) p v]) a ps p_val"

fun assign_domains ::
  "IsingDomain list \<Rightarrow> nat list \<Rightarrow> real list \<Rightarrow> IsingDomain list \<times> real list option"
where
  "assign_domains h [] p_val = (h, Some p_val)"
| "assign_domains h (a # as) p_val =
     (case assign_labels h a (labels (h ! a)) p_val of
        (h', None) \<Rightarrow> (h', None)
      | (h', Some p_val') \<Rightarrow> assign_domains h' as p_val')"

text \<open>\<open>theta\<close> on an array of concentrations works element by element.\<close>

fun theta_array :: "real \<Rightarrow> IsingDomain list \<Rightarrow> real list \<Rightarrow> error + real list" where
  "theta_array RT topo [] = Inr []"
| "theta_array RT topo (x # xs) =
     (case theta RT topo x of
        Inl e \<Rightarrow> Inl e
      | Inr t \<Rightarrow>
          (case theta_array RT topo xs of
             Inl e \<Rightarrow> Inl e
           | Inr ts \<Rightarrow> Inr (t # ts)))"

text \<open>
  \<^verbatim>\<open>fit - y\<close> on one-dimensional arrays: numpy broadcasts an array of length one and
  raises a ValueError for any other pair of different lengths.
\<close>

definition np_sub :: "real list \<Rightarrow> real list \<Rightarrow> error + real list" where
  "np_sub a b =
     (if length a = length b then Inr (map2 (-) a b)
      else if length a = 1 then Inr (map (\<lambda>v. hd a - v) b)
      else if length b = 1 then Inr (map (\<lambda>v. v - hd b) a)
      else Inl ValueError)"

text \<open>The loop over the proteins that fills \<open>res\<close>; \<open>h\<close> is the store.\<close>

fun sum_deviations :: "real \<Rightarrow> IsingDomain list \<Rightarrow> protein list \<Rightarrow> error + real list" where
  "sum_deviations RT h [] = Inr []"
| "sum_deviations RT h (p # ps) =
     (case theta_array RT (map (\<lambda>a. h ! a) (topology (protein_partition p)))
             (curve_x (protein_curve p)) of
        Inl e \<Rightarrow> Inl e
      | Inr fit \<Rightarrow>
          (case np_sub fit (curve_y (protein_curve p)) of
             Inl e \<Rightarrow> Inl e
           | Inr diff \<Rightarrow>
               (case sum_deviations RT h ps of
                  Inl e \<Rightarrow> Inl e
                | Inr res \<Rightarrow> Inr (sum_list (map (\<lambda>r. \<bar>r\<bar> ^ 2) diff) # res))))"

definition GlobalFitWrapper_call ::
  "real \<Rightarrow> GlobalFitWrapper \<Rightarrow> real list \<Rightarrow> (error + real) \<times> GlobalFitWrapper"
where
  "GlobalFitWrapper_call RT s x =
     (if length (proteins s) < 1 then (Inl ValueError, s)
      else
        case assign_domains (store s) (domains s) x of
          (h, None) \<Rightarrow> (Inl StopIteration, s\<lparr>store := h\<rparr>)
        | (h, Some p_val) \<Rightarrow>
            (case sum_deviations RT h (proteins s) of
               Inl e \<Rightarrow> (Inl e, s\<lparr>store := h\<rparr>)
             | Inr res \<Rightarrow> (Inr (sum_list res), s\<lparr>store := h\<rparr>)))"

definition GlobalFitWrapper_bounds :: "GlobalFitWrapper \<Rightarrow> (real \<times> real) list" where
  "GlobalFitWrapper_bounds s = concat (map (\<lambda>a. IsingDomain_bounds (store s ! a)) (domains s))"

definition domain_params :: "GlobalFitWrapper \<Rightarrow> string list" where
  "domain_params s =
     concat (map (\<lambda>a. map (\<lambda>l. name (store s ! a) @ '' '' @ l) (labels (store s ! a)))
       (domains s))"

text \<open>
  Two notions of the specification, for stating the invariants. \<open>slots h ds\<close> lists the
  free parameter slots in the order of the nested loops (for each domain of \<open>domains\<close>,
  for each of its \<open>used_variables\<close>): the address of the domain and the index of the
  parameter. \<open>n_free\<close> is the expected length of the flat parameter vector, the sum over
  the distinct domains of the number of their used variables.
\<close>

definition slots :: "IsingDomain list \<Rightarrow> nat list \<Rightarrow> (nat \<times> nat) list" where
  "slots h ds = concat (map (\<lambda>a. map (\<lambda>i. (a, i)) (used_variables (h ! a))) ds)"

definition n_free :: "GlobalFitWrapper \<Rightarrow> nat" where
  "n_free s = sum_list (map (\<lambda>a. length (used_variables (store s ! a))) (domains s))"

text \<open>The writes of \<open>__call__\<close>, one after the other: value \<open>v\<close> into slot \<open>(a, i)\<close>.\<close>

fun write_slots :: "IsingDomain list \<Rightarrow> ((nat \<times> nat) \<times> real) list \<Rightarrow> IsingDomain list" where
  "write_slots h [] = h"
| "write_slots h (((a, i), v) # ws) =
     write_slots (h[a := setattr (h ! a) (PARAMETER_LABELS ! i) v]) ws"

subsection \<open>The partition function in the range of float64\<close>

text \<open>
  numpy computes in float64: a result of magnitude above the largest double becomes
  \<open>inf\<close>, and \<open>inf - inf\<close>, \<open>0 * inf\<close>, \<open>inf / inf\<close> and \<open>0 / 0\<close> are \<open>nan\<close> (with a
  warning, no exception). \<open>np_float\<close> and the operations \<open>f_add\<close>, \<open>f_mul\<close>, \<open>f_div\<close>,
  \<open>f_exp\<close> model this range. Inside the range they are exact: rounding, underflow and
  the sign of zero are not modelled. The functions with the suffix \<open>_f64\<close> are the two
  weight functions and the methods of the partition function over these operations,
  statement by statement as above. The sum \<^verbatim>\<open>np.sum\<close> of the subpartitions is taken in
  list order; for values that are non-negative, \<open>inf\<close> or \<open>nan\<close> the order does not
  change the result.
\<close>

datatype np_float = PosInf | NegInf | NaN | Finite real

definition max_float :: real where
  "max_float = (2 - 1 / 2 ^ 52) * 2 ^ 1023"

definition overflow :: "real \<Rightarrow> np_float" where
  "overflow r = (if max_float < r then PosInf else if r < - max_float then NegInf else Finite r)"

fun f_neg :: "np_float \<Rightarrow> np_float" where
  "f_neg PosInf = NegInf"
| "f_neg NegInf = PosInf"
| "f_neg NaN = NaN"
| "f_neg (Finite a) = Finite (- a)"

fun f_add :: "np_float \<Rightarrow> np_float \<Rightarrow> np_float" where
  "f_add (Finite a) (Finite b) = overflow (a + b)"
| "f_add NaN b = NaN"
| "f_add a NaN = NaN"
| "f_add PosInf NegInf = NaN"
| "f_add NegInf PosInf = NaN"
| "f_add PosInf b = PosInf"
| "f_add a PosInf = PosInf"
| "f_add NegInf b = NegInf"
| "f_add a NegInf = NegInf"

definition f_sub :: "np_float \<Rightarrow> np_float \<Rightarrow> np_float" where
  "f_sub a b = f_add a (f_neg b)"

fun f_mul :: "np_float \<Rightarrow> np_float \<Rightarrow> np_float" where
  "f_mul (Finite a) (Finite b) = overflow (a * b)"
| "f_mul NaN b = NaN"
| "f_mul a NaN = NaN"
| "f_mul PosInf (Finite b) = (if b = 0 then NaN else if 0 < b then PosInf else NegInf)"
| "f_mul NegInf (Finite b) = (if b = 0 then NaN else if 0 < b then NegInf else PosInf)"
| "f_mul (Finite a) PosInf = (if a = 0 then NaN else if 0 < a then PosInf else NegInf)"
| "f_mul (Finite a) NegInf = (if a = 0 then NaN else if 0 < a then NegInf else PosInf)"
| "f_mul PosInf PosInf = PosInf"
| "f_mul NegInf NegInf = PosInf"
| "f_mul PosInf NegInf = NegInf"
| "f_mul NegInf PosInf = NegInf"

fun f_div :: "np_float \<Rightarrow> np_float \<Rightarrow> np_float" where
  "f_div (Finite a) (Finite b) =
     (if b = 0 then (if a = 0 then NaN else if 0 < a then PosInf else NegInf)
      else overflow (a / b))"
| "f_div NaN b = NaN"
| "f_div a NaN = NaN"
| "f_div (Finite a) PosInf = Finite 0"
| "f_div (Finite a) NegInf = Finite 0"
| "f_div PosInf (Finite b) = (if 0 \<le> b then PosInf else NegInf)"
| "f_div NegInf (Finite b) = (if 0 \<le> b then NegInf else PosInf)"
| "f_div PosInf b = NaN"
| "f_div NegInf b = NaN"

fun f_exp :: "np_float \<Rightarrow> np_float" where
  "f_exp (Finite a) = overflow (exp a)"
| "f_exp PosInf = PosInf"
| "f_exp NegInf = Finite 0"
| "f_exp NaN = NaN"

definition free_energy_m_f64 :: "np_float \<Rightarrow> np_float \<Rightarrow> np_float \<Rightarrow> np_float \<Rightarrow> np_float" where
  "free_energy_m_f64 RT x DeltaG m_value =
     f_exp (f_div (f_neg (f_sub DeltaG (f_mul m_value x))) RT)"

definition free_energy_f64 :: "np_float \<Rightarrow> np_float \<Rightarrow> np_float \<Rightarrow> np_float \<Rightarrow> np_float" where
  "free_energy_f64 RT x DeltaG m_value = f_exp (f_div (f_neg DeltaG) RT)"

definition kappa_f64 :: "real \<Rightarrow> IsingDomain \<Rightarrow> real \<Rightarrow> np_float" where
  "kappa_f64 RT d x = free_energy_m_f64 (Finite RT) (Finite x) (Finite (DG_i d)) (Finite (m_i d))"

definition tau_f64 :: "real \<Rightarrow> IsingDomain \<Rightarrow> real \<Rightarrow> np_float" where
  "tau_f64 RT d x = free_energy_f64 (Finite RT) (Finite x) (Finite (DG_ij d)) (Finite (m_ij d))"

type_synonym vec2_f64 = "np_float \<times> np_float"
type_synonym mat2_f64 = "vec2_f64 \<times> vec2_f64"

definition q_i_f64 :: "real \<Rightarrow> IsingDomain \<Rightarrow> real \<Rightarrow> np_float \<Rightarrow> mat2_f64" where
  "q_i_f64 RT d x folded =
     (case q_func d of
        ChainMatrix \<Rightarrow>
          ((f_mul (kappa_f64 RT d x) (tau_f64 RT d x), folded), (kappa_f64 RT d x, folded))
      | CapMatrix \<Rightarrow> ((kappa_f64 RT d x, folded), (kappa_f64 RT d x, folded)))"

definition row_times_f64 :: "vec2_f64 \<Rightarrow> mat2_f64 \<Rightarrow> vec2_f64" where
  "row_times_f64 v M =
     (f_add (f_mul (fst v) (fst (fst M))) (f_mul (snd v) (fst (snd M))),
      f_add (f_mul (fst v) (snd (fst M))) (f_mul (snd v) (snd (snd M))))"

fun chain_f64 ::
  "real \<Rightarrow> real \<Rightarrow> vec2_f64 \<Rightarrow> IsingDomain list \<Rightarrow> np_float list \<Rightarrow> error + vec2_f64"
where
  "chain_f64 RT x q [] fs = Inr q"
| "chain_f64 RT x q (d # ds) [] = Inl IndexError"
| "chain_f64 RT x q (d # ds) (f # fs) = chain_f64 RT x (row_times_f64 q (q_i_f64 RT d x f)) ds fs"

definition partition_f64 ::
  "real \<Rightarrow> IsingDomain list \<Rightarrow> real \<Rightarrow> np_float list \<Rightarrow> error + np_float"
where
  "partition_f64 RT topo x folded =
     (let folded' = (if folded = [] then replicate (length topo) (Finite 1) else folded) in
      case chain_f64 RT x (Finite 0, Finite 1) topo folded' of
        Inl e \<Rightarrow> Inl e
      | Inr q \<Rightarrow> Inr (f_add (f_mul (fst q) (Finite 1)) (f_mul (snd q) (Finite 1))))"

definition subpartition_f64 ::
  "real \<Rightarrow> IsingDomain list \<Rightarrow> real \<Rightarrow> nat \<Rightarrow> bool \<Rightarrow> error + np_float"
where
  "subpartition_f64 RT topo x i rev_flag =
     (if i < length topo then
        let folded = (replicate (length topo) (Finite 1))[i := Finite 0];
            folded' = (if rev_flag then map (\<lambda>f. f_sub (Finite 1) f) folded else folded)
        in partition_f64 RT topo x folded'
      else Inl IndexError)"

fun sum_subpartitions_f64 ::
  "real \<Rightarrow> IsingDomain list \<Rightarrow> real \<Rightarrow> nat list \<Rightarrow> error + np_float"
where
  "sum_subpartitions_f64 RT topo x [] = Inr (Finite 0)"
| "sum_subpartitions_f64 RT topo x (i # is) =
     (case subpartition_f64 RT topo x i False of
        Inl e \<Rightarrow> Inl e
      | Inr q \<Rightarrow>
          (case sum_subpartitions_f64 RT topo x is of
             Inl e \<Rightarrow> Inl e
           | Inr s \<Rightarrow> Inr (f_add q s)))"

definition theta_f64 :: "real \<Rightarrow> IsingDomain list \<Rightarrow> real \<Rightarrow> error + np_float" where
  "theta_f64 RT topo x =
     (case partition_f64 RT topo x [] of
        Inl e \<Rightarrow> Inl e
      | Inr q_n \<Rightarrow>
          (case sum_subpartitions_f64 RT topo x [0..<length topo] of
             Inl e \<Rightarrow> Inl e
           | Inr sum_q_i \<Rightarrow>
               Inr (f_sub (Finite 1)
                      (f_div sum_q_i (f_mul (Finite (real (length topo))) q_n)))))"

text \<open>
  Two predicates for the statements: a float is finite, and a float is \<open>inf\<close> or a double
  of at least \<open>L\<close>.
\<close>

fun finite64 :: "np_float \<Rightarrow> bool" where
  "finite64 (Finite v) = True"
| "finite64 y = False"


text \<open>
  The weights of the domains of a topology are exact at \<open>x\<close>: their float64 values are
  the real ones, none has left the range.
\<close>

definition exact_weights :: "real \<Rightarrow> IsingDomain list \<Rightarrow> real \<Rightarrow> bool" where
  "exact_weights RT topo x \<longleftrightarrow>
     list_all (\<lambda>d. kappa_f64 RT d x = Finite (kappa RT d x) \<and>
                    tau_f64 RT d x = Finite (tau RT d x)) topo"

subsection \<open>calculate\_error\_from\_jacobian\<close>

text \<open>
  The Jacobian is a list of rows (a one-dimensional array is a single row, as
  \<^verbatim>\<open>np.matrix\<close> reads it), so \<^verbatim>\<open>np.ravel(jac)\<close> is \<open>concat jac\<close>. \<open>mat_T\<close> and \<open>mat_dot\<close>
  are the transpose and the product of rectangular matrices, \<open>det\<close> is the determinant
  (Laplace expansion along the first row), compared with zero exactly. The
  pseudo-inverse \<^verbatim>\<open>np.linalg.pinv\<close> is a parameter. An error is \<^verbatim>\<open>np.inf\<close> or a number,
  a value of \<open>np_float\<close>.
\<close>

definition mat_T :: "real list list \<Rightarrow> real list list" where
  "mat_T m =
     (case m of [] \<Rightarrow> [] | r # rs \<Rightarrow> map (\<lambda>j. map (\<lambda>row. row ! j) m) [0..<length r])"

definition mat_dot :: "real list list \<Rightarrow> real list list \<Rightarrow> real list list" where
  "mat_dot a b = map (\<lambda>row. map (\<lambda>col. sum_list (map2 (*) row col)) (mat_T b)) a"

definition del_col :: "nat \<Rightarrow> real list \<Rightarrow> real list" where
  "del_col j row = take j row @ drop (Suc j) row"

function det :: "real list list \<Rightarrow> real" where
  "det [] = 1"
| "det (r # rs) =
     sum_list (map (\<lambda>j. (- 1) ^ j * (r ! j) * det (map (del_col j) rs)) [0..<length r])"
  by pat_completeness auto
termination
  by (relation "measure length") auto

text \<open>\<^verbatim>\<open>np.var\<close>: the mean of the squared deviations from the mean.\<close>

definition np_var :: "real list \<Rightarrow> real" where
  "np_var rs =
     (let mean = sum_list rs / real (length rs)
      in sum_list (map (\<lambda>r. \<bar>r - mean\<bar> ^ 2) rs) / real (length rs))"

text \<open>
  The list comprehension over \<^verbatim>\<open>xrange(num_params)\<close>; \<^verbatim>\<open>covar[p,p]\<close> raises outside the
  matrix.
\<close>

fun errors_list :: "real list list \<Rightarrow> real list \<Rightarrow> nat list \<Rightarrow> error + np_float list" where
  "errors_list covar residuals [] = Inr []"
| "errors_list covar residuals (p # ps) =
     (if p < length covar \<and> p < length (covar ! p) then
        (case errors_list covar residuals ps of
           Inl e \<Rightarrow> Inl e
         | Inr es \<Rightarrow>
             Inr (Finite (sqrt (covar ! p ! p * np_var residuals)
                          / sqrt (1 * real (length residuals))) # es))
      else Inl IndexError)"

definition calculate_error_from_jacobian ::
  "(real list list \<Rightarrow> real list list) \<Rightarrow> real list list \<Rightarrow> real list \<Rightarrow> error + np_float list"
where
  "calculate_error_from_jacobian pinv jac residuals =
     (let num_params = length (concat jac) in
      if det (mat_dot (mat_T jac) jac) = 0 then Inr (replicate num_params PosInf)
      else
        let covar = pinv (mat_dot (mat_T jac) jac)
        in errors_list covar residuals [0..<num_params])"

subsection \<open>Predicates for the statements about a session\<close>

text \<open>
  A protein is well formed when its topology is not empty and its curve has as many
  \<open>y\<close> values as \<open>x\<close> values, as the curve loader provides.
\<close>

definition well_formed :: "protein \<Rightarrow> bool" where
  "well_formed p \<longleftrightarrow>
     topology (protein_partition p) \<noteq> [] \<and>
     length (curve_x (protein_curve p)) = length (curve_y (protein_curve p))"

text \<open>
  The invariant of a wrapper that has only seen \<open>append\<close>: the registered classes are
  distinct, the k-th registered class has its instance at address k, and \<open>domains\<close>
  lists the addresses in creation order.
\<close>

definition session_inv :: "GlobalFitWrapper \<Rightarrow> bool" where
  "session_inv s \<longleftrightarrow>
     distinct (domain_types s) \<and>
     domains s = [0..<length (store s)] \<and>
     store s = map instantiate (domain_types s)"

text \<open>
  \<open>registered s tss\<close>: the k-th protein was appended with the class list \<open>tss ! k\<close>, and
  its topology holds, for each class, the address under which the class is registered.
\<close>

definition registered :: "GlobalFitWrapper \<Rightarrow> domain_class list list \<Rightarrow> bool" where
  "registered s tss \<longleftrightarrow>
     list_all2 (\<lambda>p ts. topology (protein_partition p) = map (index (domain_types s)) ts \<and>
                        set ts \<subseteq> set (domain_types s))
       (proteins s) tss"


section \<open>Properties of the partition function\<close>

subsection \<open>A topology of one domain\<close>

lemma kappa_pos: "0 < kappa RT d x"
  by (simp add: kappa_def free_energy_m_def)

lemma tau_pos: "0 < tau RT d x"
  by (simp add: tau_def free_energy_def)

lemma partition_single: "partition RT [d] x [] = Inr (1 + kappa RT d x)"
  by (simp add: partition_def row_times_def q_i_def split: q_form.split)

lemma subpartition_single: "subpartition RT [d] x 0 False = Inr (kappa RT d x)"
  by (simp add: subpartition_def partition_def row_times_def q_i_def split: q_form.split)

lemma theta_single: "theta RT [d] x = Inr (1 - kappa RT d x / (1 + kappa RT d x))"
proof -
  have "1 + kappa RT d x \<noteq> 0"
    using kappa_pos [of RT d x] by simp
  then show ?thesis
    by (simp add: theta_def partition_single subpartition_single)
qed

lemma theta_single': "theta RT [d] x = Inr (1 / (1 + kappa RT d x))"
proof -
  have "1 + kappa RT d x \<noteq> 0"
    using kappa_pos [of RT d x] by simp
  then have "1 - kappa RT d x / (1 + kappa RT d x) = 1 / (1 + kappa RT d x)"
    by (simp add: field_simps)
  then show ?thesis
    by (simp add: theta_single)
qed

lemma kappa_default: "kappa RT (instantiate RepeatDomain) 0 = exp (- 2 / RT)"
  by (simp add: kappa_def free_energy_m_def IsingDomain_init_def)

lemma exp_small:
  fixes RT :: real
  assumes "0 < RT" "RT \<le> 1"
  shows "exp (- 2 / RT) < 1 / 2"
proof -
  have "2 \<le> 2 / RT" using assms by (simp add: field_simps)
  then have "3 \<le> 1 + 2 / RT" by simp
  also have "\<dots> \<le> exp (2 / RT)" by (rule exp_ge_add_one_self)
  finally have "3 \<le> exp (2 / RT)" .
  then have "inverse (exp (2 / RT)) \<le> inverse 3" by (intro le_imp_inverse_le) simp_all
  moreover have "exp (- 2 / RT) = inverse (exp (2 / RT))"
    by (simp add: exp_minus)
  ultimately show ?thesis by simp
qed

lemma theta_claimed_differs:
  fixes RT :: real
  assumes "0 < RT" "RT \<le> 1"
  shows "1 / 10 ^ 9 < \<bar>1 / (1 + exp (- 2 / RT)) - exp (- 2 / RT) / (1 + exp (- 2 / RT))\<bar>"
proof -
  define k where "k = exp (- 2 / RT)"
  have k: "0 < k" "k < 1 / 2"
    using exp_small [OF assms] by (simp_all add: k_def)
  have "1 / (1 + k) - k / (1 + k) = (1 - k) / (1 + k)"
    by (simp add: diff_divide_distrib)
  moreover have "1 / 3 \<le> (1 - k) / (1 + k)"
    using k by (simp add: field_simps)
  ultimately have "1 / 3 \<le> 1 / (1 + k) - k / (1 + k)"
    by simp
  then have "1 / 3 \<le> \<bar>1 / (1 + k) - k / (1 + k)\<bar>"
    by linarith
  then show ?thesis
    unfolding k_def by simp
qed

text \<open>
  C1, as the code has it. For a topology of one domain of any class, \<open>partition(x)\<close>
  with the default indicator is \<open>1 + kappa(x)\<close>, and \<open>theta(x)\<close> is
  \<open>1 - kappa(x) / (1 + kappa(x)) = 1 / (1 + kappa(x))\<close>: \<open>kappa\<close> is the weight of the
  folded state and \<open>theta\<close> returns one minus the folded fraction. With the default
  parameters \<open>DG_i = 2\<close>, \<open>m_i = -0.5\<close>, \<open>theta(0) = 1 / (1 + exp (-2 / RT))\<close>.
\<close>

theorem two_state_reduction:
  "partition RT [d] x [] = Inr (1 + kappa RT d x) \<and>
   theta RT [d] x = Inr (1 - kappa RT d x / (1 + kappa RT d x)) \<and>
   theta RT [d] x = Inr (1 / (1 + kappa RT d x)) \<and>
   theta RT [instantiate RepeatDomain] 0 = Inr (1 / (1 + exp (- 2 / RT)))"
proof -
  have "theta RT [instantiate RepeatDomain] 0 = Inr (1 / (1 + exp (- 2 / RT)))"
    by (simp only: theta_single' kappa_default)
  with partition_single [of RT d x] theta_single [of RT d x] theta_single' [of RT d x]
  show ?thesis
    by (intro conjI)
qed

text \<open>
  C1 as stated fails: at \<open>RT = 0.5925\<close> (kcal/mol at 25 degrees Celsius) and the default
  Repeat domain, \<open>theta(0)\<close> is \<open>1 / (1 + exp (-2 / RT))\<close>, further than \<open>1e-9\<close> from
  the value \<open>exp (-2 / RT) / (1 + exp (-2 / RT))\<close> of the claim. By
  \<open>theta_claimed_differs\<close> the same holds for every \<open>RT\<close> between 0 and 1.
\<close>

theorem two_state_reduction_counterexample:
  "theta (5925/10000) [instantiate RepeatDomain] 0 = Inr (1 / (1 + exp (- 2 / (5925/10000)))) \<and>
   (1::real) / 10 ^ 9 <
     \<bar>1 / (1 + exp (- 2 / (5925/10000)))
      - exp (- 2 / (5925/10000)) / (1 + exp (- 2 / (5925/10000)))\<bar>"
proof -
  have "theta (5925/10000) [instantiate RepeatDomain] 0
        = Inr (1 / (1 + exp (- 2 / (5925/10000))))"
    by (simp only: theta_single' kappa_default)
  moreover have "(1::real) / 10 ^ 9 <
     \<bar>1 / (1 + exp (- 2 / (5925/10000)))
      - exp (- 2 / (5925/10000)) / (1 + exp (- 2 / (5925/10000)))\<bar>"
    by (rule theta_claimed_differs) simp_all
  ultimately show ?thesis by (rule conjI)
qed

subsection \<open>Monotonicity in the denaturant\<close>

lemma kappa_antimono:
  assumes "0 < RT" "m_i d < 0" "x1 \<le> x2"
  shows "kappa RT d x2 \<le> kappa RT d x1"
proof -
  have "m_i d * x2 \<le> m_i d * x1"
    using assms by (simp add: mult_left_mono_neg)
  then have "- (DG_i d - m_i d * x2) / RT \<le> - (DG_i d - m_i d * x1) / RT"
    using assms(1) by (simp add: divide_right_mono)
  then show ?thesis
    by (simp add: kappa_def free_energy_m_def)
qed

lemma theta_single_mono:
  assumes "0 < RT" "m_i d < 0" "x1 \<le> x2"
  shows "1 / (1 + kappa RT d x1) \<le> 1 / (1 + kappa RT d x2)"
proof -
  have "0 < 1 + kappa RT d x2"
    using kappa_pos [of RT d x2] by simp
  moreover have "1 + kappa RT d x2 \<le> 1 + kappa RT d x1"
    using kappa_antimono [OF assms] by simp
  ultimately show ?thesis
    by (simp add: frac_le)
qed

text \<open>
  C5, as the code has it. For \<open>RT > 0\<close>, \<open>m_i < 0\<close> and \<open>x1 \<le> x2\<close>, \<open>kappa\<close> is
  non-increasing, \<open>kappa(x2) \<le> kappa(x1)\<close>, and \<open>theta\<close> of a topology of one domain
  is non-decreasing, \<open>theta(x1) \<le> theta(x2)\<close>.
\<close>

theorem monotone_in_denaturant:
  assumes "0 < RT" "m_i d < 0" "x1 \<le> x2"
  shows "kappa RT d x2 \<le> kappa RT d x1 \<and>
         (\<exists>t1 t2. theta RT [d] x1 = Inr t1 \<and> theta RT [d] x2 = Inr t2 \<and> t1 \<le> t2)"
  using kappa_antimono [OF assms] theta_single_mono [OF assms]
  by (simp add: theta_single')

theorem monotone_in_denaturant_witness:
  "(0::real) < 5925/10000 \<and> m_i (instantiate RepeatDomain) < 0 \<and> (0::real) \<le> 1 \<and>
   kappa (5925/10000) (instantiate RepeatDomain) 1 \<le> kappa (5925/10000) (instantiate RepeatDomain) 0 \<and>
   (\<exists>t1 t2. theta (5925/10000) [instantiate RepeatDomain] 0 = Inr t1 \<and>
            theta (5925/10000) [instantiate RepeatDomain] 1 = Inr t2 \<and> t1 \<le> t2)"
proof -
  have h: "(0::real) < 5925/10000" "m_i (instantiate RepeatDomain) < 0" "(0::real) \<le> 1"
    by (simp_all add: IsingDomain_init_def)
  from monotone_in_denaturant [OF h] h show ?thesis
    by blast
qed

text \<open>
  C5 as stated fails: the default Repeat domain has \<open>m_i = -0.5 < 0\<close>, and at
  \<open>RT = 0.5925\<close> its \<open>kappa\<close> falls from \<open>x = 0\<close> to \<open>x = 1\<close>.
\<close>

theorem kappa_nondecreasing_counterexample:
  "m_i (instantiate RepeatDomain) < 0 \<and> (0::real) \<le> 1 \<and>
   \<not> kappa (5925/10000) (instantiate RepeatDomain) 0 \<le> kappa (5925/10000) (instantiate RepeatDomain) 1"
  by (simp add: kappa_def free_energy_m_def IsingDomain_init_def)

subsection \<open>The range of theta\<close>

lemma q_i_nonneg:
  "0 \<le> f \<Longrightarrow> 0 < fst (fst (q_i RT d x f)) \<and> 0 < fst (snd (q_i RT d x f)) \<and>
     snd (fst (q_i RT d x f)) = f \<and> snd (snd (q_i RT d x f)) = f"
  by (simp add: q_i_def kappa_pos tau_pos split: q_form.split)

lemma q_i_fst_indep: "fst (fst (q_i RT d x f)) = fst (fst (q_i RT d x g)) \<and> fst (snd (q_i RT d x f)) = fst (snd (q_i RT d x g))"
  by (simp add: q_i_def split: q_form.split)

lemma row_times_mono:
  assumes "0 \<le> fst q" "0 \<le> snd q" "fst q \<le> fst q'" "snd q \<le> snd q'" "0 \<le> f" "f \<le> g"
  shows "0 \<le> fst (row_times q (q_i RT d x f))"
    and "0 \<le> snd (row_times q (q_i RT d x f))"
    and "fst (row_times q (q_i RT d x f)) \<le> fst (row_times q' (q_i RT d x g))"
    and "snd (row_times q (q_i RT d x f)) \<le> snd (row_times q' (q_i RT d x g))"
proof -
  let ?a = "fst (fst (q_i RT d x f))" and ?c = "fst (snd (q_i RT d x f))"
  have pos: "0 < ?a" "0 < ?c" and sf: "snd (fst (q_i RT d x f)) = f" "snd (snd (q_i RT d x f)) = f"
    using q_i_nonneg [OF assms(5), of RT d x] by simp_all
  have g0: "0 \<le> g" using assms by simp
  have sg: "snd (fst (q_i RT d x g)) = g" "snd (snd (q_i RT d x g)) = g"
    and eqs: "fst (fst (q_i RT d x g)) = ?a" "fst (snd (q_i RT d x g)) = ?c"
    using q_i_nonneg [OF g0, of RT d x] q_i_fst_indep [of RT d x f g] by simp_all
  show "0 \<le> fst (row_times q (q_i RT d x f))"
    using assms pos by (simp add: row_times_def)
  show "0 \<le> snd (row_times q (q_i RT d x f))"
    using assms by (simp add: row_times_def sf)
  have "fst q * ?a \<le> fst q' * ?a" "snd q * ?c \<le> snd q' * ?c"
    using assms pos by (simp_all add: mult_right_mono)
  then show "fst (row_times q (q_i RT d x f)) \<le> fst (row_times q' (q_i RT d x g))"
    by (simp add: row_times_def eqs)
  have "fst q * f \<le> fst q' * g" "snd q * f \<le> snd q' * g"
    using assms by (simp_all add: mult_mono)
  then show "snd (row_times q (q_i RT d x f)) \<le> snd (row_times q' (q_i RT d x g))"
    by (simp add: row_times_def sf sg)
qed

lemma chain_mono:
  assumes "list_all2 (\<lambda>f g. 0 \<le> f \<and> f \<le> g) fs gs" "length ds \<le> length fs"
    and "0 \<le> fst q" "0 \<le> snd q" "fst q \<le> fst q'" "snd q \<le> snd q'"
  shows "\<exists>r r'. chain RT x q ds fs = Inr r \<and> chain RT x q' ds gs = Inr r' \<and>
           0 \<le> fst r \<and> 0 \<le> snd r \<and> fst r \<le> fst r' \<and> snd r \<le> snd r'"
  using assms
proof (induction ds arbitrary: fs gs q q')
  case Nil
  then show ?case by simp
next
  case (Cons d ds)
  from Cons.prems(2) obtain f fs' where fs: "fs = f # fs'"
    by (cases fs) auto
  with Cons.prems(1) obtain g gs' where gs: "gs = g # gs'" and fg: "0 \<le> f" "f \<le> g"
    and rest: "list_all2 (\<lambda>f g. 0 \<le> f \<and> f \<le> g) fs' gs'"
    by (cases gs) auto
  have len: "length ds \<le> length fs'"
    using Cons.prems(2) fs by simp
  note rt = row_times_mono [OF Cons.prems(3-6) fg, of RT d x]
  show ?case
    using Cons.IH [OF rest len rt] by (simp add: fs gs)
qed

lemma chain_ones_snd:
  assumes "0 \<le> fst q" "0 \<le> snd q" "chain RT x q ds (replicate (length ds) 1) = Inr r"
  shows "snd q \<le> snd r"
  using assms
proof (induction ds arbitrary: q)
  case Nil
  then show ?case by simp
next
  case (Cons d ds)
  let ?q = "row_times q (q_i RT d x 1)"
  have one: "(0::real) \<le> 1" by simp
  have nn: "0 \<le> fst ?q" "0 \<le> snd ?q"
    using row_times_mono(1,2) [OF Cons.prems(1,2) order_refl order_refl one order_refl] by simp_all
  have "snd ?q = fst q + snd q"
    using q_i_nonneg [OF one, of RT d x] by (simp add: row_times_def)
  then have "snd q \<le> snd ?q"
    using Cons.prems(1) by simp
  also have "snd ?q \<le> snd r"
    using Cons.IH [OF nn] Cons.prems(3) by simp
  finally show ?case .
qed

lemma partition_pos:
  "\<exists>q_n. partition RT topo x [] = Inr q_n \<and> 1 \<le> q_n"
proof -
  let ?ones = "replicate (length topo) (1::real)"
  have "list_all2 (\<lambda>f g. 0 \<le> f \<and> f \<le> g) ?ones ?ones"
    by (simp add: list_all2_conv_all_nth)
  from chain_mono [OF this, of topo "(0, 1)" "(0, 1)" RT x]
  obtain r where r: "chain RT x (0, 1) topo ?ones = Inr r" "0 \<le> fst r"
    by auto
  have "1 \<le> snd r"
    using chain_ones_snd [of "(0, 1)" RT x topo r] r(1) by simp
  then show ?thesis
    using r by (simp add: partition_def)
qed

lemma subpartition_bounds:
  assumes "i < length topo" "partition RT topo x [] = Inr q_n"
  shows "\<exists>q. subpartition RT topo x i False = Inr q \<and> 0 \<le> q \<and> q \<le> q_n"
proof -
  let ?ones = "replicate (length topo) (1::real)"
  let ?fs = "?ones[i := 0]"
  have ne: "?fs \<noteq> []"
    using assms(1) by auto
  have "list_all2 (\<lambda>f g. 0 \<le> f \<and> f \<le> g) ?fs ?ones"
    using assms(1) by (simp add: list_all2_conv_all_nth nth_list_update)
  from chain_mono [OF this, of topo "(0, 1)" "(0, 1)" RT x]
  obtain r r' where r: "chain RT x (0, 1) topo ?fs = Inr r" "chain RT x (0, 1) topo ?ones = Inr r'"
    "0 \<le> fst r" "0 \<le> snd r" "fst r \<le> fst r'" "snd r \<le> snd r'"
    by auto
  have "q_n = fst r' + snd r'"
    using assms(2) r(2) by (simp add: partition_def)
  then show ?thesis
    using r assms(1) ne by (simp add: subpartition_def partition_def)
qed

lemma sum_subpartitions_bounds:
  assumes "partition RT topo x [] = Inr q_n" "0 \<le> q_n" "\<forall>i\<in>set is. i < length topo"
  shows "\<exists>s. sum_subpartitions RT topo x is = Inr s \<and> 0 \<le> s \<and> s \<le> real (length is) * q_n"
  using assms(3)
proof (induction "is")
  case Nil
  then show ?case by simp
next
  case (Cons i "is")
  then obtain s where s: "sum_subpartitions RT topo x is = Inr s" "0 \<le> s" "s \<le> real (length is) * q_n"
    by auto
  from Cons.prems obtain q where q: "subpartition RT topo x i False = Inr q" "0 \<le> q" "q \<le> q_n"
    using subpartition_bounds [OF _ assms(1), of i] by auto
  have "q + s \<le> (1 + real (length is)) * q_n"
    using q(3) s(3) by (simp add: algebra_simps)
  then show ?case
    using s q by simp
qed

text \<open>
  Over the reals, for every non-empty topology, whatever the classes and the parameter
  values of its domains, and every concentration \<open>x\<close>, \<open>theta(x)\<close> is a number between 0
  and 1.
\<close>

lemma theta_exact_in_unit_interval:
  assumes "topo \<noteq> []"
  shows "\<exists>t. theta RT topo x = Inr t \<and> 0 \<le> t \<and> t \<le> 1"
proof -
  obtain q_n where q: "partition RT topo x [] = Inr q_n" "1 \<le> q_n"
    using partition_pos by blast
  have q0: "0 \<le> q_n" using q(2) by simp
  have "\<forall>i\<in>set [0..<length topo]. i < length topo" by simp
  from sum_subpartitions_bounds [OF q(1) q0 this]
  obtain s where s: "sum_subpartitions RT topo x [0..<length topo] = Inr s" "0 \<le> s"
    "s \<le> real (length topo) * q_n"
    by auto
  let ?D = "real (length topo) * q_n"
  have D: "0 < ?D"
    using assms q(2) by simp
  have "0 \<le> s / ?D" "s / ?D \<le> 1"
    using s D by (simp_all add: divide_le_eq)
  then show ?thesis
    using q s D assms by (simp add: theta_def)
qed

lemma theta_returns:
  assumes "topo \<noteq> []"
  shows "\<exists>t. theta RT topo x = Inr t"
proof -
  obtain q_n where q: "partition RT topo x [] = Inr q_n" "1 \<le> q_n"
    using partition_pos by blast
  have q0: "0 \<le> q_n" using q(2) by simp
  have "\<forall>i\<in>set [0..<length topo]. i < length topo" by simp
  from sum_subpartitions_bounds [OF q(1) q0 this]
  obtain s where s: "sum_subpartitions RT topo x [0..<length topo] = Inr s"
    by auto
  have "real (length topo) * q_n \<noteq> 0"
    using assms q(2) by simp
  then show ?thesis
    using q s by (simp add: theta_def)
qed

subsection \<open>The range of theta in float64\<close>

lemma max_float_ge: "2 ^ 1023 \<le> max_float"
  by (simp add: max_float_def)


lemma max_float_pos: "0 < max_float"
  using max_float_ge by (rule less_le_trans [rotated]) simp

lemma overflow_Finite: "- max_float \<le> r \<Longrightarrow> r \<le> max_float \<Longrightarrow> overflow r = Finite r"
  by (simp add: overflow_def)

lemma overflow_nonneg: "0 \<le> r \<Longrightarrow> r \<le> max_float \<Longrightarrow> overflow r = Finite r"
  using max_float_pos by (simp add: overflow_def)

lemma overflow_eq_Finite: "overflow r = Finite v \<Longrightarrow> v = r \<and> r \<le> max_float"
  by (simp add: overflow_def split: if_splits)















lemma chain_f64_returns:
  "length ds \<le> length fs \<Longrightarrow> \<exists>q'. chain_f64 RT x q ds fs = Inr q'"
proof (induction ds arbitrary: q fs)
  case Nil
  then show ?case by simp
next
  case (Cons d ds)
  then show ?case by (cases fs) simp_all
qed



lemma f_mul_Finite_D:
  assumes "f_mul a b = Finite v"
  shows "\<exists>a' b'. a = Finite a' \<and> b = Finite b' \<and> v = a' * b' \<and> v \<le> max_float"
  using assms by (cases a; cases b) (auto simp add: overflow_def split: if_splits)

lemma f_add_Finite_D:
  assumes "f_add a b = Finite v"
  shows "\<exists>a' b'. a = Finite a' \<and> b = Finite b' \<and> v = a' + b' \<and> v \<le> max_float"
  using assms by (cases a; cases b) (auto simp add: overflow_def split: if_splits)

lemma f_exp_Finite_D: "f_exp y = Finite v \<Longrightarrow> 0 \<le> v"
  by (cases y) (auto simp add: overflow_def split: if_splits)

lemma kappa_f64_nonneg: "kappa_f64 RT d x = Finite v \<Longrightarrow> 0 \<le> v"
  unfolding kappa_f64_def free_energy_m_f64_def by (rule f_exp_Finite_D)

lemma tau_f64_nonneg: "tau_f64 RT d x = Finite v \<Longrightarrow> 0 \<le> v"
  unfolding tau_f64_def free_energy_f64_def by (rule f_exp_Finite_D)

lemma q_i_f64_entries:
  "\<exists>E1 E2. (\<forall>f. q_i_f64 RT d x f = ((E1, f), (E2, f))) \<and>
     (\<forall>e. E1 = Finite e \<longrightarrow> 0 \<le> e) \<and> (\<forall>e. E2 = Finite e \<longrightarrow> 0 \<le> e)"
proof (cases "q_func d")
  case ChainMatrix
  have "0 \<le> e" if "f_mul (kappa_f64 RT d x) (tau_f64 RT d x) = Finite e" for e
  proof -
    from f_mul_Finite_D [OF that] obtain k t
      where "kappa_f64 RT d x = Finite k" "tau_f64 RT d x = Finite t" "e = k * t"
      by blast
    then show ?thesis
      using kappa_f64_nonneg [of RT d x k] tau_f64_nonneg [of RT d x t] by simp
  qed
  then show ?thesis
    using ChainMatrix kappa_f64_nonneg [of RT d x] by (auto simp add: q_i_f64_def)
next
  case CapMatrix
  then show ?thesis
    using kappa_f64_nonneg [of RT d x] by (auto simp add: q_i_f64_def)
qed

text \<open>A step of the all-folded chain, and the same step of a chain that lies below it.\<close>

lemma row_times_f64_below:
  assumes M: "\<And>f. q_i_f64 RT d x f = ((E1, f), (E2, f))"
    and E: "\<And>e. E1 = Finite e \<Longrightarrow> 0 \<le> e" "\<And>e. E2 = Finite e \<Longrightarrow> 0 \<le> e"
    and top: "row_times_f64 (Finite A, Finite B) (q_i_f64 RT d x (Finite 1)) = (Finite A', Finite B')"
    and ab: "0 \<le> a" "a \<le> A" "0 \<le> b" "b \<le> B" and f: "0 \<le> f" "f \<le> 1"
  shows "\<exists>a' b'. row_times_f64 (Finite a, Finite b) (q_i_f64 RT d x (Finite f)) = (Finite a', Finite b') \<and>
           0 \<le> a' \<and> a' \<le> A' \<and> 0 \<le> b' \<and> b' \<le> B' \<and> B \<le> B'"
proof -
  have A0: "0 \<le> A" and B0: "0 \<le> B" using ab by simp_all
  from top have fstA: "f_add (f_mul (Finite A) E1) (f_mul (Finite B) E2) = Finite A'"
    and sndB: "f_add (f_mul (Finite A) (Finite 1)) (f_mul (Finite B) (Finite 1)) = Finite B'"
    by (simp_all add: row_times_f64_def M)
  from f_add_Finite_D [OF fstA] obtain p r where pr: "f_mul (Finite A) E1 = Finite p"
    "f_mul (Finite B) E2 = Finite r" "A' = p + r" "A' \<le> max_float"
    by blast
  from f_mul_Finite_D [OF pr(1)] obtain e1 where e1: "E1 = Finite e1" "p = A * e1" "p \<le> max_float"
    by auto
  from f_mul_Finite_D [OF pr(2)] obtain e2 where e2: "E2 = Finite e2" "r = B * e2" "r \<le> max_float"
    by auto
  have e10: "0 \<le> e1" and e20: "0 \<le> e2"
    using E e1(1) e2(1) by simp_all
  have p1: "0 \<le> a * e1" "a * e1 \<le> p"
    using ab e10 e1(2) by (simp_all add: mult_right_mono)
  have r1: "0 \<le> b * e2" "b * e2 \<le> r"
    using ab e20 e2(2) by (simp_all add: mult_right_mono)
  have s1: "f_mul (Finite a) E1 = Finite (a * e1)"
    using p1 e1 by (simp add: overflow_nonneg)
  have s2: "f_mul (Finite b) E2 = Finite (b * e2)"
    using r1 e2 by (simp add: overflow_nonneg)
  have s3: "f_add (Finite (a * e1)) (Finite (b * e2)) = Finite (a * e1 + b * e2)"
    using p1 r1 pr(3,4) by (simp add: overflow_nonneg)
  from f_add_Finite_D [OF sndB] obtain u w where uw: "f_mul (Finite A) (Finite 1) = Finite u"
    "f_mul (Finite B) (Finite 1) = Finite w" "B' = u + w" "B' \<le> max_float"
    by blast
  from f_mul_Finite_D [OF uw(1)] have u: "u = A" "A \<le> max_float" by auto
  from f_mul_Finite_D [OF uw(2)] have w: "w = B" "B \<le> max_float" by auto
  have af: "0 \<le> a * f" "a * f \<le> A"
    using ab f by (simp_all add: mult_le_one mult_left_le order_trans [of "a * f" a A])
  have bf: "0 \<le> b * f" "b * f \<le> B"
    using ab f by (simp_all add: mult_left_le order_trans [of "b * f" b B])
  have t1: "f_mul (Finite a) (Finite f) = Finite (a * f)"
    using af u by (simp add: overflow_nonneg)
  have t2: "f_mul (Finite b) (Finite f) = Finite (b * f)"
    using bf w by (simp add: overflow_nonneg)
  have t3: "f_add (Finite (a * f)) (Finite (b * f)) = Finite (a * f + b * f)"
    using af bf uw(3,4) u w by (simp add: overflow_nonneg)
  have "row_times_f64 (Finite a, Finite b) (q_i_f64 RT d x (Finite f))
        = (Finite (a * e1 + b * e2), Finite (a * f + b * f))"
    by (simp only: row_times_f64_def M fst_conv snd_conv s1 s2 s3 t1 t2 t3)
  moreover have "a * e1 + b * e2 \<le> A'" "a * f + b * f \<le> B'" "B \<le> B'"
    using p1 r1 pr(3) af bf uw(3) u w A0 by simp_all
  ultimately show ?thesis
    using p1 r1 af bf by simp
qed

lemma chain_f64_Finite_start:
  assumes "chain_f64 RT x (a, b) ds fs = Inr (Finite a', Finite b')"
  shows "finite64 a \<and> finite64 b"
  using assms
proof (induction ds arbitrary: a b fs)
  case Nil
  then show ?case by simp
next
  case (Cons d ds)
  then obtain f fs' where fs: "fs = f # fs'"
    by (cases fs) auto
  let ?q = "row_times_f64 (a, b) (q_i_f64 RT d x f)"
  from Cons.prems have "chain_f64 RT x (fst ?q, snd ?q) ds fs' = Inr (Finite a', Finite b')"
    by (simp add: fs)
  from Cons.IH [OF this] obtain v where "fst ?q = Finite v"
    by (cases "fst ?q") auto
  then have "f_add (f_mul a (fst (fst (q_i_f64 RT d x f)))) (f_mul b (fst (snd (q_i_f64 RT d x f)))) = Finite v"
    by (simp add: row_times_f64_def)
  from f_add_Finite_D [OF this] obtain p r
    where pr: "f_mul a (fst (fst (q_i_f64 RT d x f))) = Finite p"
      "f_mul b (fst (snd (q_i_f64 RT d x f))) = Finite r"
    by blast
  from f_mul_Finite_D [OF pr(1)] f_mul_Finite_D [OF pr(2)] show ?case
    by auto
qed

lemma chain_f64_below:
  assumes "chain_f64 RT x (Finite A, Finite B) ds (replicate (length ds) (Finite 1))
             = Inr (Finite A', Finite B')"
    and "length vs = length ds" "\<forall>v\<in>set vs. 0 \<le> v \<and> v \<le> 1"
    and "0 \<le> a" "a \<le> A" "0 \<le> b" "b \<le> B"
  shows "\<exists>a' b'. chain_f64 RT x (Finite a, Finite b) ds (map Finite vs) = Inr (Finite a', Finite b') \<and>
           0 \<le> a' \<and> a' \<le> A' \<and> 0 \<le> b' \<and> b' \<le> B' \<and> B \<le> B'"
  using assms
proof (induction ds arbitrary: A B a b vs)
  case Nil
  then show ?case by simp
next
  case (Cons d ds)
  from Cons.prems(2) obtain v vs' where vs: "vs = v # vs'" "length vs' = length ds"
    by (cases vs) auto
  have v: "0 \<le> v" "v \<le> 1" and vs': "\<forall>v\<in>set vs'. 0 \<le> v \<and> v \<le> 1"
    using Cons.prems(3) vs by simp_all
  obtain E1 E2 where M: "\<And>f. q_i_f64 RT d x f = ((E1, f), (E2, f))"
    and E: "\<And>e. E1 = Finite e \<Longrightarrow> 0 \<le> e" "\<And>e. E2 = Finite e \<Longrightarrow> 0 \<le> e"
    using q_i_f64_entries [of RT d x] by blast
  let ?Q = "row_times_f64 (Finite A, Finite B) (q_i_f64 RT d x (Finite 1))"
  have tail: "chain_f64 RT x (fst ?Q, snd ?Q) ds (replicate (length ds) (Finite 1))
      = Inr (Finite A', Finite B')"
    using Cons.prems(1) by simp
  from chain_f64_Finite_start [OF tail] obtain A1 B1 where Q: "?Q = (Finite A1, Finite B1)"
    by (cases "fst ?Q"; cases "snd ?Q") (auto simp add: prod_eq_iff)
  from row_times_f64_below [OF M E Q Cons.prems(4-7) v]
  obtain a1 b1 where q: "row_times_f64 (Finite a, Finite b) (q_i_f64 RT d x (Finite v)) = (Finite a1, Finite b1)"
    "0 \<le> a1" "a1 \<le> A1" "0 \<le> b1" "b1 \<le> B1" "B \<le> B1"
    by blast
  have tail': "chain_f64 RT x (Finite A1, Finite B1) ds (replicate (length ds) (Finite 1))
      = Inr (Finite A', Finite B')"
    using tail Q by simp
  from Cons.IH [OF tail' vs(2) vs' q(2-5)]
  obtain a' b' where r: "chain_f64 RT x (Finite a1, Finite b1) ds (map Finite vs') = Inr (Finite a', Finite b')"
    "0 \<le> a'" "a' \<le> A'" "0 \<le> b'" "b' \<le> B'" "B1 \<le> B'"
    by blast
  have "B \<le> B'" using q(6) r(6) by simp
  with r show ?case
    by (simp add: vs q(1))
qed

lemma partition_f64_Finite_D:
  assumes "partition_f64 RT topo x [] = Inr (Finite q)"
  shows "\<exists>A' B'. chain_f64 RT x (Finite 0, Finite 1) topo (replicate (length topo) (Finite 1))
            = Inr (Finite A', Finite B') \<and> q = A' + B' \<and> q \<le> max_float \<and> 0 \<le> A' \<and> 1 \<le> B'"
proof -
  obtain a' b' where ch: "chain_f64 RT x (Finite 0, Finite 1) topo (replicate (length topo) (Finite 1)) = Inr (a', b')"
    using chain_f64_returns [of topo "replicate (length topo) (Finite 1)" RT x "(Finite 0, Finite 1)"]
    by auto
  with assms have "f_add (f_mul a' (Finite 1)) (f_mul b' (Finite 1)) = Finite q"
    by (simp add: partition_f64_def)
  from f_add_Finite_D [OF this] obtain u w where uw: "f_mul a' (Finite 1) = Finite u"
    "f_mul b' (Finite 1) = Finite w" "q = u + w" "q \<le> max_float"
    by blast
  from f_mul_Finite_D [OF uw(1)] have a': "a' = Finite u" by auto
  from f_mul_Finite_D [OF uw(2)] have b': "b' = Finite w" by auto
  have ch': "chain_f64 RT x (Finite 0, Finite 1) topo (replicate (length topo) (Finite 1))
      = Inr (Finite u, Finite w)"
    using ch a' b' by simp
  have "\<forall>v\<in>set (replicate (length topo) (1::real)). 0 \<le> v \<and> v \<le> 1"
    by simp
  from chain_f64_below [OF ch' _ this, of 0 1]
  have "0 \<le> u \<and> 1 \<le> w"
    by (auto simp add: map_replicate)
  with ch' uw show ?thesis
    by blast
qed

lemma subpartition_f64_below:
  assumes "partition_f64 RT topo x [] = Inr (Finite q)" "i < length topo"
  shows "\<exists>s. subpartition_f64 RT topo x i False = Inr (Finite s) \<and> 0 \<le> s \<and> s \<le> q"
proof -
  from partition_f64_Finite_D [OF assms(1)]
  obtain A' B' where ch: "chain_f64 RT x (Finite 0, Finite 1) topo (replicate (length topo) (Finite 1))
            = Inr (Finite A', Finite B')" and q: "q = A' + B'" "q \<le> max_float" "0 \<le> A'" "1 \<le> B'"
    by blast
  let ?vs = "(replicate (length topo) (1::real))[i := 0]"
  have fs: "(replicate (length topo) (Finite 1))[i := Finite 0] = map Finite ?vs"
    by (simp add: map_update)
  have ne: "map Finite ?vs \<noteq> []"
    using assms(2) by auto
  have "\<forall>v\<in>set ?vs. 0 \<le> v \<and> v \<le> 1"
    by (auto dest!: set_update_subset_insert [THEN subsetD])
  from chain_f64_below [OF ch _ this, of 0 1]
  obtain a' b' where r: "chain_f64 RT x (Finite 0, Finite 1) topo (map Finite ?vs) = Inr (Finite a', Finite b')"
    "0 \<le> a'" "a' \<le> A'" "0 \<le> b'" "b' \<le> B'"
    by auto
  have "a' \<le> max_float" "b' \<le> max_float" "a' + b' \<le> max_float"
    using r q by simp_all
  then have "f_add (f_mul (Finite a') (Finite 1)) (f_mul (Finite b') (Finite 1)) = Finite (a' + b')"
    using r by (simp add: overflow_nonneg)
  then have "subpartition_f64 RT topo x i False = Inr (Finite (a' + b'))"
    using assms(2) ne r(1) by (simp add: subpartition_f64_def partition_f64_def fs)
  moreover have "0 \<le> a' + b'" "a' + b' \<le> q"
    using r q by simp_all
  ultimately show ?thesis by blast
qed

lemma sum_subpartitions_f64_below:
  assumes "partition_f64 RT topo x [] = Inr (Finite q)" "0 \<le> q"
    and "\<forall>i\<in>set is. i < length topo" "real (length is) * q \<le> max_float"
  shows "\<exists>s. sum_subpartitions_f64 RT topo x is = Inr (Finite s) \<and> 0 \<le> s \<and> s \<le> real (length is) * q"
  using assms(3,4)
proof (induction "is")
  case Nil
  then show ?case by simp
next
  case (Cons i "is")
  have "real (length is) * q \<le> real (length (i # is)) * q"
    using assms(2) by (simp add: algebra_simps)
  with Cons.prems(2) have "real (length is) * q \<le> max_float"
    by simp
  with Cons obtain s where s: "sum_subpartitions_f64 RT topo x is = Inr (Finite s)" "0 \<le> s"
    "s \<le> real (length is) * q"
    by auto
  from subpartition_f64_below [OF assms(1), of i] Cons.prems(1)
  obtain t where t: "subpartition_f64 RT topo x i False = Inr (Finite t)" "0 \<le> t" "t \<le> q"
    by auto
  have b: "t + s \<le> real (length (i # is)) * q"
    using t(3) s(3) by (simp add: algebra_simps)
  with Cons.prems(2) have "t + s \<le> max_float" by simp
  then have "f_add (Finite t) (Finite s) = Finite (t + s)"
    using t(2) s(2) by (simp add: overflow_nonneg)
  with t s b show ?case by simp
qed




text \<open>
  Inside the range the float64 functions agree with the functions over the reals: the
  weights are exact when no step of their computation leaves the range, and then a
  partition sum that does not overflow gives the same \<open>theta\<close>.
\<close>

lemma overflow_abs: "\<bar>r\<bar> \<le> max_float \<Longrightarrow> overflow r = Finite r"
  by (rule overflow_Finite) linarith+

lemma kappa_f64_in_range:
  assumes "RT \<noteq> 0" "\<bar>m_i d * x\<bar> \<le> max_float" "\<bar>DG_i d - m_i d * x\<bar> \<le> max_float"
    and "\<bar>- (DG_i d - m_i d * x) / RT\<bar> \<le> max_float"
    and "exp (- (DG_i d - m_i d * x) / RT) \<le> max_float"
  shows "kappa_f64 RT d x = Finite (kappa RT d x)"
proof -
  have a: "overflow (m_i d * x) = Finite (m_i d * x)"
    using assms(2) by (rule overflow_abs)
  have b: "overflow (DG_i d + - (m_i d * x)) = Finite (DG_i d - m_i d * x)"
    using overflow_abs [OF assms(3)] by simp
  have c: "overflow (- (DG_i d - m_i d * x) / RT) = Finite (- (DG_i d - m_i d * x) / RT)"
    using assms(4) by (rule overflow_abs)
  have e: "overflow (exp (- (DG_i d - m_i d * x) / RT)) = Finite (exp (- (DG_i d - m_i d * x) / RT))"
    using assms(5) by (intro overflow_nonneg) simp_all
  show ?thesis
    by (simp only: kappa_f64_def free_energy_m_f64_def f_sub_def f_mul.simps f_neg.simps
        f_add.simps f_div.simps f_exp.simps a b c e assms(1) if_False kappa_def free_energy_m_def)
qed

lemma tau_f64_in_range:
  assumes "RT \<noteq> 0" "\<bar>- DG_ij d / RT\<bar> \<le> max_float" "exp (- DG_ij d / RT) \<le> max_float"
  shows "tau_f64 RT d x = Finite (tau RT d x)"
proof -
  have c: "overflow (- DG_ij d / RT) = Finite (- DG_ij d / RT)"
    using assms(2) by (rule overflow_abs)
  have e: "overflow (exp (- DG_ij d / RT)) = Finite (exp (- DG_ij d / RT))"
    using assms(3) by (intro overflow_nonneg) simp_all
  show ?thesis
    by (simp only: tau_f64_def free_energy_f64_def f_neg.simps f_div.simps f_exp.simps c e
        assms(1) if_False tau_def free_energy_def)
qed

lemma row_times_f64_exact:
  assumes "kappa_f64 RT d x = Finite (kappa RT d x)" "tau_f64 RT d x = Finite (tau RT d x)"
    and "row_times_f64 (Finite a, Finite b) (q_i_f64 RT d x (Finite f)) = (Finite a', Finite b')"
  shows "row_times (a, b) (q_i RT d x f) = (a', b')"
proof -
  from assms(3) have s: "f_add (f_mul (Finite a) (Finite f)) (f_mul (Finite b) (Finite f)) = Finite b'"
    by (simp add: row_times_f64_def q_i_f64_def split: q_form.splits)
  from f_add_Finite_D [OF s] obtain u w where uw: "f_mul (Finite a) (Finite f) = Finite u"
    "f_mul (Finite b) (Finite f) = Finite w" "b' = u + w"
    by blast
  from f_mul_Finite_D [OF uw(1)] f_mul_Finite_D [OF uw(2)] uw(3)
  have b': "b' = a * f + b * f"
    by auto
  show ?thesis
  proof (cases "q_func d")
    case ChainMatrix
    with assms have "f_add (f_mul (Finite a) (f_mul (Finite (kappa RT d x)) (Finite (tau RT d x))))
        (f_mul (Finite b) (Finite (kappa RT d x))) = Finite a'"
      by (simp add: row_times_f64_def q_i_f64_def)
    from f_add_Finite_D [OF this] obtain p r
      where pr: "f_mul (Finite a) (f_mul (Finite (kappa RT d x)) (Finite (tau RT d x))) = Finite p"
        "f_mul (Finite b) (Finite (kappa RT d x)) = Finite r" "a' = p + r"
      by blast
    from f_mul_Finite_D [OF pr(1)] obtain e
      where e: "f_mul (Finite (kappa RT d x)) (Finite (tau RT d x)) = Finite e" "p = a * e"
      by auto
    from f_mul_Finite_D [OF e(1)] have "e = kappa RT d x * tau RT d x"
      by auto
    moreover from f_mul_Finite_D [OF pr(2)] have "r = b * kappa RT d x"
      by auto
    ultimately show ?thesis
      using ChainMatrix pr(3) e(2) b' by (simp add: row_times_def q_i_def)
  next
    case CapMatrix
    with assms have "f_add (f_mul (Finite a) (Finite (kappa RT d x)))
        (f_mul (Finite b) (Finite (kappa RT d x))) = Finite a'"
      by (simp add: row_times_f64_def q_i_f64_def)
    from f_add_Finite_D [OF this] obtain p r
      where pr: "f_mul (Finite a) (Finite (kappa RT d x)) = Finite p"
        "f_mul (Finite b) (Finite (kappa RT d x)) = Finite r" "a' = p + r"
      by blast
    from f_mul_Finite_D [OF pr(1)] f_mul_Finite_D [OF pr(2)] pr(3)
    have "a' = a * kappa RT d x + b * kappa RT d x"
      by auto
    then show ?thesis
      using CapMatrix b' by (simp add: row_times_def q_i_def)
  qed
qed

lemma chain_f64_exact:
  assumes "exact_weights RT ds x"
    and "chain_f64 RT x (Finite a, Finite b) ds (map Finite vs) = Inr (Finite a', Finite b')"
  shows "chain RT x (a, b) ds vs = Inr (a', b')"
  using assms
proof (induction ds arbitrary: a b vs)
  case Nil
  then show ?case by simp
next
  case (Cons d ds)
  from Cons.prems(2) obtain v vs' where vs: "vs = v # vs'"
    by (cases vs) auto
  have w: "kappa_f64 RT d x = Finite (kappa RT d x)" "tau_f64 RT d x = Finite (tau RT d x)"
    and ws: "exact_weights RT ds x"
    using Cons.prems(1) by (simp_all add: exact_weights_def)
  let ?Q = "row_times_f64 (Finite a, Finite b) (q_i_f64 RT d x (Finite v))"
  have tail: "chain_f64 RT x (fst ?Q, snd ?Q) ds (map Finite vs') = Inr (Finite a', Finite b')"
    using Cons.prems(2) by (simp add: vs)
  from chain_f64_Finite_start [OF tail] obtain a1 b1 where Q: "?Q = (Finite a1, Finite b1)"
    by (cases "fst ?Q"; cases "snd ?Q") (auto simp add: prod_eq_iff)
  have "chain_f64 RT x (Finite a1, Finite b1) ds (map Finite vs') = Inr (Finite a', Finite b')"
    using tail Q by simp
  from Cons.IH [OF ws this] row_times_f64_exact [OF w Q] show ?case
    by (simp add: vs)
qed

lemma partition_f64_exact:
  assumes "exact_weights RT topo x" "partition_f64 RT topo x (map Finite vs) = Inr (Finite q)"
  shows "partition RT topo x vs = Inr q"
proof -
  let ?vs = "if vs = [] then replicate (length topo) 1 else vs"
  have fs: "(if map Finite vs = [] then replicate (length topo) (Finite 1) else map Finite vs)
      = map Finite ?vs"
    by (simp add: map_replicate)
  obtain r where r: "chain_f64 RT x (Finite 0, Finite 1) topo (map Finite ?vs) = Inr r"
    "f_add (f_mul (fst r) (Finite 1)) (f_mul (snd r) (Finite 1)) = Finite q"
    using assms(2) unfolding partition_f64_def fs Let_def
    by (cases "chain_f64 RT x (Finite 0, Finite 1) topo (map Finite ?vs)") simp_all
  from f_add_Finite_D [OF r(2)] obtain u w where uw: "f_mul (fst r) (Finite 1) = Finite u"
    "f_mul (snd r) (Finite 1) = Finite w" "q = u + w"
    by blast
  from f_mul_Finite_D [OF uw(1)] f_mul_Finite_D [OF uw(2)]
  have "r = (Finite u, Finite w)"
    by (auto simp add: prod_eq_iff)
  with r(1) have "chain RT x (0, 1) topo ?vs = Inr (u, w)"
    using chain_f64_exact [OF assms(1)] by simp
  then show ?thesis
    using uw(3) by (simp add: partition_def)
qed

lemma subpartition_f64_exact:
  assumes "exact_weights RT topo x" "subpartition_f64 RT topo x i False = Inr (Finite s)"
  shows "subpartition RT topo x i False = Inr s"
proof (cases "i < length topo")
  case True
  have fs: "(replicate (length topo) (Finite 1))[i := Finite 0]
      = map Finite ((replicate (length topo) (1::real))[i := 0])"
    by (simp add: map_update)
  from assms(2) True
  have "partition_f64 RT topo x (map Finite ((replicate (length topo) 1)[i := 0])) = Inr (Finite s)"
    by (simp add: subpartition_f64_def fs)
  from partition_f64_exact [OF assms(1) this] True show ?thesis
    by (simp add: subpartition_def)
next
  case False
  with assms(2) show ?thesis
    by (simp add: subpartition_f64_def)
qed

lemma sum_subpartitions_f64_exact:
  assumes "exact_weights RT topo x" "sum_subpartitions_f64 RT topo x is = Inr (Finite s)"
  shows "sum_subpartitions RT topo x is = Inr s"
  using assms(2)
proof (induction "is" arbitrary: s)
  case Nil
  then show ?case by simp
next
  case (Cons i "is")
  from Cons.prems obtain q r where qr: "subpartition_f64 RT topo x i False = Inr q"
    "sum_subpartitions_f64 RT topo x is = Inr r" "f_add q r = Finite s"
    by (auto split: sum.splits)
  from f_add_Finite_D [OF qr(3)] obtain q' r' where f: "q = Finite q'" "r = Finite r'" "s = q' + r'"
    by blast
  from subpartition_f64_exact [OF assms(1)] qr(1) f(1)
  have "subpartition RT topo x i False = Inr q'"
    by simp
  moreover from Cons.IH qr(2) f(2) have "sum_subpartitions RT topo x is = Inr r'"
    by simp
  ultimately show ?case
    using f(3) by simp
qed

lemma theta_f64_exact:
  assumes "exact_weights RT topo x" "topo \<noteq> []"
    and "partition_f64 RT topo x [] = Inr (Finite q)"
    and "real (length topo) * q \<le> max_float"
  shows "\<exists>t. theta_f64 RT topo x = Inr (Finite t) \<and> theta RT topo x = Inr t"
proof -
  from partition_f64_Finite_D [OF assms(3)] have q1: "1 \<le> q"
    by auto
  then have q0: "0 \<le> q" by simp
  let ?D = "real (length topo) * q"
  have D: "0 < ?D"
    using assms(2) q1 by simp
  have Dn: "?D \<noteq> 0"
    using D by linarith
  have "\<forall>i\<in>set [0..<length topo]. i < length topo" by simp
  from sum_subpartitions_f64_below [OF assms(3) q0 this] assms(4)
  obtain s where s: "sum_subpartitions_f64 RT topo x [0..<length topo] = Inr (Finite s)"
    "0 \<le> s" "s \<le> ?D"
    by auto
  have r: "0 \<le> s / ?D" "s / ?D \<le> 1"
    using s D by (simp_all add: divide_le_eq)
  have one: "1 \<le> max_float"
    using max_float_ge by (rule order_trans [rotated]) simp
  have m: "f_mul (Finite (real (length topo))) (Finite q) = Finite ?D"
    using D assms(4) by (simp add: overflow_nonneg)
  have "s / ?D \<le> max_float"
    using r(2) one by (rule order_trans)
  with r(1) have "overflow (s / ?D) = Finite (s / ?D)"
    by (rule overflow_nonneg)
  then have dv: "f_div (Finite s) (Finite ?D) = Finite (s / ?D)"
    by (simp only: f_div.simps Dn if_False)
  have sb: "f_sub (Finite 1) (Finite (s / ?D)) = Finite (1 - s / ?D)"
    using r one by (simp add: f_sub_def overflow_nonneg)
  have a: "theta_f64 RT topo x = Inr (Finite (1 - s / ?D))"
    by (simp only: theta_f64_def assms(3) s(1) sum.case m dv sb)
  have p: "partition RT topo x [] = Inr q"
    using partition_f64_exact [OF assms(1), of "[]" q] assms(3) by simp
  have "theta RT topo x = Inr (1 - s / ?D)"
    using p sum_subpartitions_f64_exact [OF assms(1) s(1)] Dn by (simp add: theta_def)
  with a show ?thesis by blast
qed








subsection \<open>The parameter slot m\_ij\<close>

lemma kappa_m_ij: "kappa RT (d\<lparr>m_ij := v\<rparr>) x = kappa RT d x"
  by (simp add: kappa_def)

lemma tau_m_ij: "tau RT (d\<lparr>m_ij := v\<rparr>) x = tau RT d x"
  by (simp add: tau_def free_energy_def)

lemma q_i_m_ij: "q_i RT (d\<lparr>m_ij := v\<rparr>) x f = q_i RT d x f"
  by (simp add: q_i_def kappa_m_ij tau_m_ij split: q_form.split)

lemma chain_m_ij:
  "chain RT x q (map (\<lambda>(d, v). d\<lparr>m_ij := v\<rparr>) dvs) fs = chain RT x q (map fst dvs) fs"
proof (induction dvs arbitrary: q fs)
  case Nil
  then show ?case by simp
next
  case (Cons dv dvs)
  then show ?case
    by (cases fs) (simp_all add: q_i_m_ij split_beta)
qed

lemma partition_m_ij:
  "partition RT (map (\<lambda>(d, v). d\<lparr>m_ij := v\<rparr>) dvs) x fs = partition RT (map fst dvs) x fs"
  by (simp add: partition_def chain_m_ij)

lemma subpartition_m_ij:
  "subpartition RT (map (\<lambda>(d, v). d\<lparr>m_ij := v\<rparr>) dvs) x i r
   = subpartition RT (map fst dvs) x i r"
  by (simp add: subpartition_def partition_m_ij)

lemma sum_subpartitions_m_ij:
  "sum_subpartitions RT (map (\<lambda>(d, v). d\<lparr>m_ij := v\<rparr>) dvs) x js
   = sum_subpartitions RT (map fst dvs) x js"
  by (induction js) (simp_all add: subpartition_m_ij cong: sum.case_cong)

lemma theta_m_ij:
  "theta RT (map (\<lambda>(d, v). d\<lparr>m_ij := v\<rparr>) dvs) x = theta RT (map fst dvs) x"
  by (simp add: theta_def partition_m_ij sum_subpartitions_m_ij split: sum.split)

text \<open>
  C8. For every domain, \<open>kappa(x) = exp (-(DG_i - m_i x) / RT)\<close> and
  \<open>tau(x) = exp (-DG_ij / RT)\<close>. The value of \<open>m_ij\<close> influences none of \<open>kappa\<close>,
  \<open>tau\<close>, \<open>q_i\<close>, \<open>partition\<close> and \<open>theta\<close>: replacing the \<open>m_ij\<close> of every domain of a
  topology by any other value leaves them unchanged.
\<close>

theorem weights_ignore_m_ij:
  "kappa RT d x = exp (- (DG_i d - m_i d * x) / RT) \<and>
   tau RT d x = exp (- DG_ij d / RT) \<and>
   kappa RT (d\<lparr>m_ij := v\<rparr>) x = kappa RT d x \<and>
   tau RT (d\<lparr>m_ij := v\<rparr>) x = tau RT d x \<and>
   q_i RT (d\<lparr>m_ij := v\<rparr>) x f = q_i RT d x f \<and>
   partition RT (map (\<lambda>(d, v). d\<lparr>m_ij := v\<rparr>) dvs) x fs = partition RT (map fst dvs) x fs \<and>
   theta RT (map (\<lambda>(d, v). d\<lparr>m_ij := v\<rparr>) dvs) x = theta RT (map fst dvs) x"
  by (simp only: kappa_m_ij tau_m_ij q_i_m_ij partition_m_ij theta_m_ij simp_thms)
     (simp add: kappa_def tau_def free_energy_m_def free_energy_def)

section \<open>The constructor of IsingPartitionFunction\<close>

lemma check_topology_refs: "check_topology (map DomainRef as) = Inr as"
  by (induction as) simp_all

lemma check_topology_other: "OtherObject \<in> set os \<Longrightarrow> check_topology os = Inl TypeError"
proof (induction os rule: check_topology.induct)
  case 1
  then show ?case by simp
next
  case (2 a os)
  then show ?case by simp
next
  case (3 os)
  then show ?case by simp
qed

text \<open>
  C6, as the code has it. Constructing a partition function from something that is not
  a list, or from a list with an element that is not a domain instance, fails with a
  TypeError. A list of domain instances is accepted whatever its length: the empty
  list gives a partition function with \<open>n = 0\<close>.
\<close>

theorem topology_constructor_errors:
  "IsingPartitionFunction_init NotAList = Inl TypeError \<and>
   (OtherObject \<in> set os \<longrightarrow> IsingPartitionFunction_init (PyList os) = Inl TypeError) \<and>
   IsingPartitionFunction_init (PyList (map DomainRef as)) = Inr \<lparr>topology = as, n = length as\<rparr>"
  by (simp add: check_topology_refs check_topology_other init_topology_def)

theorem topology_constructor_errors_witness:
  "OtherObject \<in> set [DomainRef 0, OtherObject] \<and>
   IsingPartitionFunction_init (PyList [DomainRef 0, OtherObject]) = Inl TypeError"
  using topology_constructor_errors [of "[DomainRef 0, OtherObject]"] by simp

text \<open>C6 as stated fails: the empty topology is accepted.\<close>

theorem empty_topology_accepted:
  "IsingPartitionFunction_init (PyList []) = Inr \<lparr>topology = [], n = 0\<rparr>"
  by (simp add: init_topology_def)

section \<open>The global objective\<close>

subsection \<open>Evaluation without curves\<close>

text \<open>
  C9. Calling the wrapper while no protein has been appended raises a ValueError, and
  the wrapper with its store is left as it was: no parameter has been assigned.
\<close>

theorem evaluate_without_curves:
  "proteins s = [] \<Longrightarrow> GlobalFitWrapper_call RT s x = (Inl ValueError, s)"
  by (simp add: GlobalFitWrapper_call_def)

theorem evaluate_without_curves_witness:
  "proteins GlobalFitWrapper_init = [] \<and>
   GlobalFitWrapper_call (5925/10000) GlobalFitWrapper_init [1, 2, 3]
     = (Inl ValueError, GlobalFitWrapper_init)"
  using evaluate_without_curves [of GlobalFitWrapper_init "5925/10000" "[1, 2, 3]"]
  by (simp add: GlobalFitWrapper_init_def)

subsection \<open>The assignment loop\<close>

lemma used_variables_setattr [simp]: "used_variables (setattr d p v) = used_variables d"
  by (simp add: setattr_def)

lemma used_variables_update:
  "used_variables ((h[a := setattr (h ! a) p v]) ! b) = used_variables (h ! b)"
proof (cases "b = a")
  case True
  show ?thesis
  proof (cases "a < length h")
    case True
    with \<open>b = a\<close> show ?thesis by simp
  next
    case False
    then show ?thesis by (simp add: list_update_beyond)
  qed
next
  case False
  then show ?thesis by simp
qed

lemma zip_take_eq: "zip xs (take (length xs) ys) = zip xs ys"
proof (induction xs arbitrary: ys)
  case Nil
  then show ?case by simp
next
  case (Cons x xs)
  then show ?case by (cases ys) simp_all
qed

lemma used_variables_write_slots:
  "used_variables (write_slots h ws ! b) = used_variables (h ! b)"
proof (induction ws arbitrary: h)
  case Nil
  then show ?case by simp
next
  case (Cons w ws)
  obtain a i v where w: "w = ((a, i), v)"
    by (cases w) auto
  show ?case
    by (simp add: w Cons.IH used_variables_update)
qed

lemma write_slots_append: "write_slots h (ws @ ws') = write_slots (write_slots h ws) ws'"
proof (induction ws arbitrary: h)
  case Nil
  then show ?case by simp
next
  case (Cons w ws)
  obtain a i v where w: "w = ((a, i), v)"
    by (cases w) auto
  show ?case
    by (simp add: w Cons.IH)
qed

lemma slots_write_slots: "slots (write_slots h ws) ds = slots h ds"
  by (simp add: slots_def used_variables_write_slots)

lemma assign_labels_writes:
  "assign_labels h a (map (\<lambda>i. PARAMETER_LABELS ! i) us) xs =
     (write_slots h (zip (map (\<lambda>i. (a, i)) us) xs),
      if length xs < length us then None else Some (drop (length us) xs))"
proof (induction us arbitrary: h xs)
  case Nil
  then show ?case by simp
next
  case (Cons u us)
  show ?case
  proof (cases xs)
    case Nil
    then show ?thesis by simp
  next
    case (Cons v vs)
    then show ?thesis
      by (simp add: Cons.IH)
  qed
qed

lemma zip_append_short:
  "length xs < length ys \<Longrightarrow> zip (ys @ zs) xs = zip ys xs"
  by (simp add: zip_append1)

lemma assign_domains_writes:
  "assign_domains h ds xs =
     (write_slots h (zip (slots h ds) xs),
      if length xs < length (slots h ds) then None else Some (drop (length (slots h ds)) xs))"
proof (induction ds arbitrary: h xs)
  case Nil
  then show ?case by (simp add: slots_def)
next
  case (Cons a ds)
  let ?us = "used_variables (h ! a)"
  let ?A = "map (\<lambda>i. (a, i)) ?us"
  have sl: "slots h (a # ds) = ?A @ slots h ds"
    by (simp add: slots_def)
  show ?case
  proof (cases "length xs < length ?us")
    case True
    then show ?thesis
      by (simp add: labels_def assign_labels_writes sl zip_append_short)
  next
    case False
    let ?h1 = "write_slots h (zip ?A xs)"
    have "zip ?A (take (length ?A) xs) = zip ?A xs"
      by (rule zip_take_eq)
    then have z: "zip (?A @ slots h ds) xs = zip ?A xs @ zip (slots h ds) (drop (length ?us) xs)"
      by (simp add: zip_append1)
    have s1: "slots ?h1 ds = slots h ds"
      by (rule slots_write_slots)
    from False show ?thesis
      by (auto simp add: labels_def assign_labels_writes sl z s1 Cons.IH write_slots_append add.commute)
  qed
qed

lemma length_slots: "length (slots (store s) (domains s)) = n_free s"
  by (simp add: slots_def n_free_def length_concat comp_def)

subsection \<open>The length of the parameter vector\<close>

lemma theta_empty: "theta RT [] x = Inl NotANumber"
  by (simp add: theta_def partition_def)

lemma theta_array_returns:
  assumes "\<And>x. \<exists>t. theta RT topo x = Inr t"
  shows "\<exists>ts. theta_array RT topo xs = Inr ts \<and> length ts = length xs"
proof (induction xs)
  case Nil
  then show ?case by simp
next
  case (Cons x xs)
  obtain t where "theta RT topo x = Inr t"
    using assms by blast
  with Cons show ?case by auto
qed

lemma theta_array_not_stop: "theta_array RT topo xs \<noteq> Inl StopIteration"
proof (cases "topo = []")
  case True
  then show ?thesis
    by (cases xs) (simp_all add: theta_empty)
next
  case False
  then have "\<And>x. \<exists>t. theta RT topo x = Inr t"
    using theta_returns by blast
  from theta_array_returns [OF this, of xs] show ?thesis
    by auto
qed

lemma np_sub_not_stop: "np_sub a b \<noteq> Inl StopIteration"
  by (simp add: np_sub_def)

lemma sum_deviations_not_stop: "sum_deviations RT h ps \<noteq> Inl StopIteration"
proof (induction ps)
  case Nil
  then show ?case by simp
next
  case (Cons p ps)
  then show ?case
    using theta_array_not_stop np_sub_not_stop
    by (auto split: sum.split)
qed

lemma sum_deviations_returns:
  assumes "list_all well_formed ps"
  shows "\<exists>res. sum_deviations RT h ps = Inr res"
  using assms
proof (induction ps)
  case Nil
  then show ?case by simp
next
  case (Cons p ps)
  let ?topo = "map (\<lambda>a. h ! a) (topology (protein_partition p))"
  from Cons.prems have wf: "?topo \<noteq> []"
    "length (curve_x (protein_curve p)) = length (curve_y (protein_curve p))"
    by (simp_all add: well_formed_def)
  have "\<And>x. \<exists>t. theta RT ?topo x = Inr t"
    using theta_returns [OF wf(1)] by blast
  from theta_array_returns [OF this, of "curve_x (protein_curve p)"]
  obtain fit where fit: "theta_array RT ?topo (curve_x (protein_curve p)) = Inr fit"
    "length fit = length (curve_x (protein_curve p))"
    by blast
  have "\<exists>d. np_sub fit (curve_y (protein_curve p)) = Inr d"
    using fit(2) wf(2) by (simp add: np_sub_def)
  moreover from Cons obtain res where "sum_deviations RT h ps = Inr res"
    by auto
  ultimately show ?case
    using fit(1) by auto
qed

text \<open>
  C10. When the vector \<open>x\<close> has at least \<open>n_free s\<close> entries, the assignment loop
  consumes exactly the first \<open>n_free s\<close> of them, slot by slot in the fixed order, and
  leaves the rest in the iterator; the call gives the same result and the same store
  as on the prefix of length \<open>n_free s\<close>, and does not raise StopIteration. It returns a
  number when moreover a protein has been appended and the proteins are well formed.
  When \<open>x\<close> is shorter and a protein has been appended, the call raises StopIteration.
\<close>

theorem surplus_parameters_ignored:
  "(n_free s \<le> length x \<longrightarrow>
      assign_domains (store s) (domains s) x =
        (write_slots (store s) (zip (slots (store s) (domains s)) (take (n_free s) x)),
         Some (drop (n_free s) x)) \<and>
      GlobalFitWrapper_call RT s x = GlobalFitWrapper_call RT s (take (n_free s) x) \<and>
      fst (GlobalFitWrapper_call RT s x) \<noteq> Inl StopIteration) \<and>
   (n_free s \<le> length x \<and> proteins s \<noteq> [] \<and> list_all well_formed (proteins s) \<longrightarrow>
      (\<exists>v. fst (GlobalFitWrapper_call RT s x) = Inr v)) \<and>
   (length x < n_free s \<and> proteins s \<noteq> [] \<longrightarrow>
      fst (GlobalFitWrapper_call RT s x) = Inl StopIteration)"
proof -
  let ?sl = "slots (store s) (domains s)"
  let ?h = "write_slots (store s) (zip ?sl (take (n_free s) x))"
  have long: "assign_domains (store s) (domains s) x = (?h, Some (drop (n_free s) x))"
    and pre: "assign_domains (store s) (domains s) (take (n_free s) x) = (?h, Some [])"
    if "n_free s \<le> length x"
  proof -
    have z: "zip ?sl (take (n_free s) x) = zip ?sl x"
      using zip_take_eq [of ?sl x] by (simp add: length_slots)
    show "assign_domains (store s) (domains s) x = (?h, Some (drop (n_free s) x))"
      using that by (simp add: assign_domains_writes length_slots z)
    show "assign_domains (store s) (domains s) (take (n_free s) x) = (?h, Some [])"
      using that by (simp add: assign_domains_writes length_slots)
  qed
  have eq: "GlobalFitWrapper_call RT s x = GlobalFitWrapper_call RT s (take (n_free s) x)"
    if "n_free s \<le> length x"
    by (simp add: GlobalFitWrapper_call_def long [OF that] pre [OF that])
  have ns: "fst (GlobalFitWrapper_call RT s x) \<noteq> Inl StopIteration"
    if "n_free s \<le> length x"
    using sum_deviations_not_stop [of RT ?h "proteins s"]
    by (auto simp add: GlobalFitWrapper_call_def long [OF that] split: sum.split)
  have ret: "\<exists>v. fst (GlobalFitWrapper_call RT s x) = Inr v"
    if "n_free s \<le> length x" "proteins s \<noteq> []" "list_all well_formed (proteins s)"
    using sum_deviations_returns [OF that(3), of RT ?h] that(2)
    by (auto simp add: GlobalFitWrapper_call_def long [OF that(1)])
  have short: "fst (GlobalFitWrapper_call RT s x) = Inl StopIteration"
    if "length x < n_free s" "proteins s \<noteq> []"
    using that by (simp add: GlobalFitWrapper_call_def assign_domains_writes length_slots)
  from long eq ns ret short show ?thesis
    by blast
qed

theorem surplus_parameters_ignored_witness:
  "n_free \<lparr>store = [instantiate CapDomain, instantiate RepeatDomain],
       proteins =
         [\<lparr>protein_n = 3,
            protein_curve = \<lparr>curve_ID = ''A'', curve_x = [0, 1], curve_y = [0, 1]\<rparr>,
            protein_partition = \<lparr>topology = [0, 1, 1], n = 3\<rparr>\<rparr>],
       domains = [0, 1],
       domain_types = [CapDomain, RepeatDomain]\<rparr> = 5 \<and>
   GlobalFitWrapper_call 1 \<lparr>store = [instantiate CapDomain, instantiate RepeatDomain],
       proteins =
         [\<lparr>protein_n = 3,
            protein_curve = \<lparr>curve_ID = ''A'', curve_x = [0, 1], curve_y = [0, 1]\<rparr>,
            protein_partition = \<lparr>topology = [0, 1, 1], n = 3\<rparr>\<rparr>],
       domains = [0, 1],
       domain_types = [CapDomain, RepeatDomain]\<rparr> [1, 2, 3, 4, 5, 6, 7] =
   GlobalFitWrapper_call 1 \<lparr>store = [instantiate CapDomain, instantiate RepeatDomain],
       proteins =
         [\<lparr>protein_n = 3,
            protein_curve = \<lparr>curve_ID = ''A'', curve_x = [0, 1], curve_y = [0, 1]\<rparr>,
            protein_partition = \<lparr>topology = [0, 1, 1], n = 3\<rparr>\<rparr>],
       domains = [0, 1],
       domain_types = [CapDomain, RepeatDomain]\<rparr> [1, 2, 3, 4, 5] \<and>
   (\<exists>v. fst (GlobalFitWrapper_call 1 \<lparr>store = [instantiate CapDomain, instantiate RepeatDomain],
       proteins =
         [\<lparr>protein_n = 3,
            protein_curve = \<lparr>curve_ID = ''A'', curve_x = [0, 1], curve_y = [0, 1]\<rparr>,
            protein_partition = \<lparr>topology = [0, 1, 1], n = 3\<rparr>\<rparr>],
       domains = [0, 1],
       domain_types = [CapDomain, RepeatDomain]\<rparr> [1, 2, 3, 4, 5, 6, 7]) = Inr v) \<and>
   fst (GlobalFitWrapper_call 1 \<lparr>store = [instantiate CapDomain, instantiate RepeatDomain],
       proteins =
         [\<lparr>protein_n = 3,
            protein_curve = \<lparr>curve_ID = ''A'', curve_x = [0, 1], curve_y = [0, 1]\<rparr>,
            protein_partition = \<lparr>topology = [0, 1, 1], n = 3\<rparr>\<rparr>],
       domains = [0, 1],
       domain_types = [CapDomain, RepeatDomain]\<rparr> [1, 2]) = Inl StopIteration"
proof -
  let ?s = "\<lparr>store = [instantiate CapDomain, instantiate RepeatDomain],
       proteins =
         [\<lparr>protein_n = 3,
            protein_curve = \<lparr>curve_ID = ''A'', curve_x = [0, 1], curve_y = [0, 1]\<rparr>,
            protein_partition = \<lparr>topology = [0, 1, 1], n = 3\<rparr>\<rparr>],
       domains = [0, 1],
       domain_types = [CapDomain, RepeatDomain]\<rparr>"
  have nf: "n_free ?s = 5"
    by (simp add: n_free_def IsingDomain_init_def)
  have l7: "n_free ?s \<le> length [1, 2, 3, 4, 5, 6, 7 :: real]"
    unfolding nf by simp
  have l2: "length [1, 2 :: real] < n_free ?s"
    unfolding nf by simp
  have pr: "proteins ?s \<noteq> []"
    by simp
  have wf: "list_all well_formed (proteins ?s)"
    by (simp add: well_formed_def)
  note long = surplus_parameters_ignored [of ?s "[1, 2, 3, 4, 5, 6, 7]" 1,
      THEN conjunct1, rule_format, OF l7]
  note ret = surplus_parameters_ignored [of ?s "[1, 2, 3, 4, 5, 6, 7]" 1,
      THEN conjunct2, THEN conjunct1, rule_format, OF conjI [OF l7 conjI [OF pr wf]]]
  note short = surplus_parameters_ignored [of ?s "[1, 2]" 1,
      THEN conjunct2, THEN conjunct2, rule_format, OF conjI [OF l2 pr]]
  have "GlobalFitWrapper_call 1 ?s [1, 2, 3, 4, 5, 6, 7] = GlobalFitWrapper_call 1 ?s [1, 2, 3, 4, 5]"
    using long [THEN conjunct2, THEN conjunct1] unfolding nf by simp
  with nf ret short show ?thesis
    by (intro conjI)
qed

subsection \<open>Sessions built by append\<close>

lemma index_less: "c \<in> set ts \<Longrightarrow> index ts c < length ts"
  by (induction ts) auto


lemma index_append_in: "c \<in> set ts \<Longrightarrow> index (ts @ us) c = index ts c"
  by (induction ts) auto

lemma index_append_notin: "c \<notin> set ts \<Longrightarrow> index (ts @ c # us) c = length ts"
  by (induction ts) auto

lemma session_inv_init: "session_inv GlobalFitWrapper_init"
  by (simp add: session_inv_def GlobalFitWrapper_init_def)

lemma setup_domains_inv:
  assumes "session_inv s"
  shows "\<exists>s' ext. setup_domains s cs q = (Inr (q @ map (index (domain_types s')) cs), s') \<and>
           session_inv s' \<and> domain_types s' = domain_types s @ ext \<and>
           set cs \<subseteq> set (domain_types s') \<and> proteins s' = proteins s"
  using assms
proof (induction cs arbitrary: s q)
  case Nil
  then show ?case by simp
next
  case (Cons c cs)
  show ?case
  proof (cases "c \<in> set (domain_types s)")
    case True
    let ?k = "index (domain_types s) c"
    have len: "length (domains s) = length (domain_types s)"
      using Cons.prems by (simp add: session_inv_def)
    have k: "?k < length (domains s)"
      using True len by (simp add: index_less)
    have dk: "domains s ! ?k = ?k"
      using Cons.prems k by (simp add: session_inv_def)
    from Cons.IH [OF Cons.prems, of "q @ [?k]"]
    obtain s' ext where s': "setup_domains s cs (q @ [?k]) = (Inr ((q @ [?k]) @ map (index (domain_types s')) cs), s')"
      "session_inv s'" "domain_types s' = domain_types s @ ext"
      "set cs \<subseteq> set (domain_types s')" "proteins s' = proteins s"
      by blast
    have "index (domain_types s') c = ?k"
      using True s'(3) by (simp add: index_append_in)
    then show ?thesis
      using True k dk s' by (simp add: Let_def)
  next
    case False
    let ?s1 = "s\<lparr>store := store s @ [instantiate c],
                 domains := domains s @ [length (store s)],
                 domain_types := domain_types s @ [c]\<rparr>"
    have inv1: "session_inv ?s1"
      using Cons.prems False by (simp add: session_inv_def)
    have len: "length (store s) = length (domain_types s)"
      using Cons.prems by (simp add: session_inv_def)
    from Cons.IH [OF inv1, of "q @ [length (store s)]"]
    obtain s' ext where s': "setup_domains ?s1 cs (q @ [length (store s)]) =
        (Inr ((q @ [length (store s)]) @ map (index (domain_types s')) cs), s')"
      "session_inv s'" "domain_types s' = domain_types ?s1 @ ext"
      "set cs \<subseteq> set (domain_types s')" "proteins s' = proteins ?s1"
      by blast
    have ty: "domain_types s' = domain_types s @ c # ext"
      using s'(3) by simp
    have "index (domain_types s') c = length (store s)"
      using False by (simp add: ty index_append_notin len)
    then show ?thesis
      using False s' ty by (simp add: Let_def)
  qed
qed

lemma append_inv:
  assumes "session_inv s"
  shows "\<exists>s' ext. GlobalFitWrapper_append s (EquilibriumDenaturationCurve c) cs = (Inr (), s') \<and>
           session_inv s' \<and> domain_types s' = domain_types s @ ext \<and>
           set cs \<subseteq> set (domain_types s') \<and>
           proteins s' = proteins s @
             [\<lparr>protein_n = length cs, protein_curve = c,
               protein_partition = \<lparr>topology = map (index (domain_types s')) cs, n = length cs\<rparr>\<rparr>]"
proof -
  from setup_domains_inv [OF assms, of cs "[]"]
  obtain s1 ext where s1: "setup_domains s cs [] = (Inr (map (index (domain_types s1)) cs), s1)"
    "session_inv s1" "domain_types s1 = domain_types s @ ext"
    "set cs \<subseteq> set (domain_types s1)" "proteins s1 = proteins s"
    by auto
  let ?s' = "s1\<lparr>proteins := proteins s1 @
      [\<lparr>protein_n = length (map (index (domain_types s1)) cs), protein_curve = c,
        protein_partition = init_topology (map (index (domain_types s1)) cs)\<rparr>]\<rparr>"
  have "GlobalFitWrapper_append s (EquilibriumDenaturationCurve c) cs = (Inr (), ?s')"
    by (simp add: s1(1) check_topology_refs del: map_map)
  moreover have "session_inv ?s'"
    using s1(2) by (simp add: session_inv_def)
  ultimately show ?thesis
    using s1 by (simp add: init_topology_def)
qed

lemma append_all_inv:
  assumes "session_inv s" "registered s tss" "append_all s cts = (Inr (), s')"
  shows "session_inv s' \<and> registered s' (tss @ map snd cts) \<and>
         (\<exists>ext. domain_types s' = domain_types s @ ext)"
  using assms
proof (induction cts arbitrary: s tss)
  case Nil
  then show ?case by simp
next
  case (Cons ct cts)
  obtain carg cs where ct: "ct = (carg, cs)"
    by (cases ct) auto
  show ?case
  proof (cases carg)
    case NotACurve
    with Cons.prems(3) ct show ?thesis by simp
  next
    case (EquilibriumDenaturationCurve c)
    from append_inv [OF Cons.prems(1), of c cs]
    obtain s1 ext where s1: "GlobalFitWrapper_append s (EquilibriumDenaturationCurve c) cs = (Inr (), s1)"
      "session_inv s1" "domain_types s1 = domain_types s @ ext"
      "set cs \<subseteq> set (domain_types s1)"
      "proteins s1 = proteins s @
             [\<lparr>protein_n = length cs, protein_curve = c,
               protein_partition = \<lparr>topology = map (index (domain_types s1)) cs, n = length cs\<rparr>\<rparr>]"
      by blast
    have old: "list_all2 (\<lambda>p ts. topology (protein_partition p) = map (index (domain_types s1)) ts \<and>
                        set ts \<subseteq> set (domain_types s1)) (proteins s) tss"
      using Cons.prems(2) unfolding registered_def
      by (rule list_all2_mono) (auto simp add: s1(3) index_append_in)
    have reg1: "registered s1 (tss @ [cs])"
      unfolding registered_def s1(5)
      using old s1(4) by (intro list_all2_appendI) simp_all
    have rest: "append_all s1 cts = (Inr (), s')"
      using Cons.prems(3) ct EquilibriumDenaturationCurve s1(1) by simp
    from Cons.IH [OF s1(2) reg1 rest] s1(3) show ?thesis
      by (auto simp add: ct)
  qed
qed

lemma append_all_init:
  assumes "append_all GlobalFitWrapper_init cts = (Inr (), s)"
  shows "session_inv s \<and> registered s (map snd cts)"
proof -
  have "registered GlobalFitWrapper_init []"
    by (simp add: registered_def GlobalFitWrapper_init_def)
  from append_all_inv [OF session_inv_init this assms] show ?thesis
    by simp
qed

lemma example_session:
  "append_all GlobalFitWrapper_init
     [(EquilibriumDenaturationCurve \<lparr>curve_ID = ''A'', curve_x = [0, 1], curve_y = [0, 1]\<rparr>,
       [CapDomain, RepeatDomain, RepeatDomain]),
      (EquilibriumDenaturationCurve \<lparr>curve_ID = ''B'', curve_x = [2], curve_y = [1]\<rparr>,
       [RepeatDomain, CapDomain])]
   = (Inr (),
      \<lparr>store = [instantiate CapDomain, instantiate RepeatDomain],
       proteins =
         [\<lparr>protein_n = 3,
            protein_curve = \<lparr>curve_ID = ''A'', curve_x = [0, 1], curve_y = [0, 1]\<rparr>,
            protein_partition = \<lparr>topology = [0, 1, 1], n = 3\<rparr>\<rparr>,
          \<lparr>protein_n = 2,
            protein_curve = \<lparr>curve_ID = ''B'', curve_x = [2], curve_y = [1]\<rparr>,
            protein_partition = \<lparr>topology = [1, 0], n = 2\<rparr>\<rparr>],
       domains = [0, 1],
       domain_types = [CapDomain, RepeatDomain]\<rparr>)"
  by (simp add: GlobalFitWrapper_init_def Let_def init_topology_def)



subsection \<open>Bounds, names and the parameter vector\<close>

lemma bounds_slots:
  "GlobalFitWrapper_bounds s =
     map (\<lambda>(a, i). bounds_tbl (store s ! a) ! i) (slots (store s) (domains s))"
  by (simp add: GlobalFitWrapper_bounds_def IsingDomain_bounds_def slots_def map_concat comp_def)

lemma params_slots:
  "domain_params s =
     map (\<lambda>(a, i). name (store s ! a) @ '' '' @ PARAMETER_LABELS ! i) (slots (store s) (domains s))"
  by (simp add: domain_params_def labels_def slots_def map_concat comp_def)

lemma getattr_setattr_same:
  "i < 4 \<Longrightarrow> getattr (setattr d (PARAMETER_LABELS ! i) v) (PARAMETER_LABELS ! i) = v"
proof -
  assume "i < 4"
  then have "i = 0 \<or> i = 1 \<or> i = 2 \<or> i = 3" by arith
  then show ?thesis
    by (auto simp add: PARAMETER_LABELS_def getattr_def setattr_def)
qed

lemma getattr_setattr_other:
  assumes "i < 4" "j < 4" "i \<noteq> j"
  shows "getattr (setattr d (PARAMETER_LABELS ! i) v) (PARAMETER_LABELS ! j) = getattr d (PARAMETER_LABELS ! j)"
proof -
  have "i = 0 \<or> i = 1 \<or> i = 2 \<or> i = 3" "j = 0 \<or> j = 1 \<or> j = 2 \<or> j = 3"
    using assms by arith+
  with assms(3) show ?thesis
    by (auto simp add: PARAMETER_LABELS_def getattr_def setattr_def)
qed

lemma length_write_slots: "length (write_slots h ws) = length h"
proof (induction ws arbitrary: h)
  case Nil
  then show ?case by simp
next
  case (Cons w ws)
  obtain a i v where w: "w = ((a, i), v)"
    by (cases w) auto
  show ?case
    by (simp add: w Cons.IH)
qed

lemma write_slots_other:
  assumes "(a, j) \<notin> fst ` set ws" "\<forall>w\<in>set ws. snd (fst w) < 4" "j < 4"
  shows "getattr (write_slots h ws ! a) (PARAMETER_LABELS ! j) = getattr (h ! a) (PARAMETER_LABELS ! j)"
  using assms(1,2)
proof (induction ws arbitrary: h)
  case Nil
  then show ?case by simp
next
  case (Cons w ws)
  obtain b i v where w: "w = ((b, i), v)"
    by (cases w) auto
  let ?h1 = "h[b := setattr (h ! b) (PARAMETER_LABELS ! i) v]"
  have i4: "i < 4" and ne: "(b, i) \<noteq> (a, j)"
    using Cons.prems w by auto
  have "getattr (?h1 ! a) (PARAMETER_LABELS ! j) = getattr (h ! a) (PARAMETER_LABELS ! j)"
  proof (cases "b = a \<and> a < length h")
    case True
    then have "i \<noteq> j" using ne by simp
    with True i4 assms(3) show ?thesis
      by (simp add: getattr_setattr_other)
  next
    case False
    then show ?thesis
      by (cases "b = a") (simp_all add: list_update_beyond)
  qed
  moreover have "getattr (write_slots ?h1 ws ! a) (PARAMETER_LABELS ! j) = getattr (?h1 ! a) (PARAMETER_LABELS ! j)"
    using Cons.prems by (intro Cons.IH) auto
  ultimately show ?case
    by (simp add: w)
qed

lemma write_slots_nth:
  assumes "distinct (map fst ws)" "\<forall>w\<in>set ws. fst (fst w) < length h \<and> snd (fst w) < 4"
    and "p < length ws"
  shows "getattr (write_slots h ws ! fst (fst (ws ! p))) (PARAMETER_LABELS ! snd (fst (ws ! p)))
         = snd (ws ! p)"
  using assms
proof (induction ws arbitrary: h p)
  case Nil
  then show ?case by simp
next
  case (Cons w ws)
  obtain b i v where w: "w = ((b, i), v)"
    by (cases w) auto
  let ?h1 = "h[b := setattr (h ! b) (PARAMETER_LABELS ! i) v]"
  have b: "b < length h" and i4: "i < 4"
    using Cons.prems(2) w by auto
  show ?case
  proof (cases p)
    case 0
    have "(b, i) \<notin> fst ` set ws"
      using Cons.prems(1) w by auto
    moreover have "\<forall>w\<in>set ws. snd (fst w) < 4"
      using Cons.prems(2) by auto
    ultimately have "getattr (write_slots ?h1 ws ! b) (PARAMETER_LABELS ! i)
        = getattr (?h1 ! b) (PARAMETER_LABELS ! i)"
      using i4 by (intro write_slots_other) auto
    then show ?thesis
      using 0 b i4 by (simp add: w getattr_setattr_same)
  next
    case (Suc p')
    have "getattr (write_slots ?h1 ws ! fst (fst (ws ! p'))) (PARAMETER_LABELS ! snd (fst (ws ! p')))
         = snd (ws ! p')"
      using Cons.prems Suc by (intro Cons.IH) auto
    then show ?thesis
      using Suc by (simp add: w)
  qed
qed

lemma distinct_slots:
  assumes "distinct ds" "\<forall>a\<in>set ds. distinct (used_variables (h ! a))"
  shows "distinct (slots h ds)"
  using assms
proof (induction ds)
  case Nil
  then show ?case by (simp add: slots_def)
next
  case (Cons a ds)
  have "slots h (a # ds) = map (\<lambda>i. (a, i)) (used_variables (h ! a)) @ slots h ds"
    by (simp add: slots_def)
  moreover have "distinct (map (\<lambda>i. (a, i)) (used_variables (h ! a)))"
    using Cons.prems by (simp add: distinct_map inj_on_def)
  moreover have "distinct (slots h ds)"
    using Cons by simp
  moreover have "fst ` set (slots h ds) \<subseteq> set ds"
    by (auto simp add: slots_def)
  then have "set (map (\<lambda>i. (a, i)) (used_variables (h ! a))) \<inter> set (slots h ds) = {}"
    using Cons.prems(1) by auto
  ultimately show ?case
    by simp
qed

lemma slots_members:
  "(a, i) \<in> set (slots h ds) \<Longrightarrow> a \<in> set ds \<and> i \<in> set (used_variables (h ! a))"
  by (auto simp add: slots_def)

lemma instantiate_used_variables:
  "distinct (used_variables (instantiate c)) \<and> (\<forall>i\<in>set (used_variables (instantiate c)). i < 4)"
  by (cases c) (simp_all add: IsingDomain_init_def)

lemma instantiate_bounds_tbl: "bounds_tbl (instantiate c) = ACCEPTABLE_BOUNDS"
  by (cases c) (simp_all add: IsingDomain_init_def)

lemma assigned_slot:
  assumes "session_inv s" "n_free s \<le> length x" "p < n_free s"
  shows "getattr (fst (assign_domains (store s) (domains s) x) ! fst (slots (store s) (domains s) ! p))
           (PARAMETER_LABELS ! snd (slots (store s) (domains s) ! p)) = x ! p"
proof -
  let ?sl = "slots (store s) (domains s)"
  let ?ws = "zip ?sl x"
  have st: "store s = map instantiate (domain_types s)" and ds: "domains s = [0..<length (store s)]"
    using assms(1) by (simp_all add: session_inv_def)
  have len: "length ?sl = n_free s"
    by (rule length_slots)
  have fst_ws: "map fst ?ws = ?sl"
    using assms(2) len by (simp add: map_fst_zip_take)
  have mem: "a < length (store s) \<and> i < 4 \<and> distinct (used_variables (store s ! a))"
    if "(a, i) \<in> set ?sl" for a i
  proof -
    from slots_members [OF that] have a: "a < length (store s)" and i: "i \<in> set (used_variables (store s ! a))"
      by (simp_all add: ds)
    have "store s ! a = instantiate (domain_types s ! a)"
      using a st by (metis length_map nth_map)
    with i a instantiate_used_variables [of "domain_types s ! a"] show ?thesis
      by simp
  qed
  have d: "distinct (map fst ?ws)"
    unfolding fst_ws
  proof (rule distinct_slots)
    show "distinct (domains s)" by (simp add: ds)
    show "\<forall>a\<in>set (domains s). distinct (used_variables (store s ! a))"
    proof
      fix a assume "a \<in> set (domains s)"
      then have a: "a < length (store s)" by (simp add: ds)
      have "store s ! a = instantiate (domain_types s ! a)"
        using a st by (metis length_map nth_map)
      then show "distinct (used_variables (store s ! a))"
        using instantiate_used_variables by simp
    qed
  qed
  have r: "\<forall>w\<in>set ?ws. fst (fst w) < length (store s) \<and> snd (fst w) < 4"
  proof
    fix w assume "w \<in> set ?ws"
    then have "fst w \<in> set ?sl"
      by (metis fst_ws image_eqI set_map)
    then show "fst (fst w) < length (store s) \<and> snd (fst w) < 4"
      using mem [of "fst (fst w)" "snd (fst w)"] by simp
  qed
  have p: "p < length ?ws"
    using assms(2,3) len by simp
  have wp: "?ws ! p = (?sl ! p, x ! p)"
    using p by simp
  from write_slots_nth [OF d r p] show ?thesis
    by (simp add: assign_domains_writes wp)
qed

text \<open>
  C3. After any sequence of successful \<open>append\<close> calls on a fresh wrapper, \<open>bounds\<close> and
  \<open>domain_params\<close> both have the length \<open>n_free\<close>, the sum over the distinct registered
  classes, in creation order, of the number of their used variables. For every
  position \<open>p\<close> below that length, with \<open>(a, i)\<close> the p-th slot of the nested loops
  (domain at address \<open>a\<close>, parameter \<open>i\<close>): \<open>bounds[p]\<close> is the bound of parameter \<open>i\<close> of
  that domain, \<open>domain_params[p]\<close> is the name of that domain followed by the label
  of parameter \<open>i\<close>, and a call with a vector \<open>x\<close> of at least that length leaves
  \<open>x[p]\<close> in parameter \<open>i\<close> of that domain.
\<close>

theorem bounds_match_parameter_vector:
  assumes "append_all GlobalFitWrapper_init cts = (Inr (), s)"
  shows "length (GlobalFitWrapper_bounds s) = n_free s \<and>
         length (domain_params s) = n_free s \<and>
         distinct (domain_types s) \<and>
         n_free s = sum_list (map (\<lambda>c. length (used_variables (instantiate c))) (domain_types s)) \<and>
         (\<forall>p<n_free s.
            GlobalFitWrapper_bounds s ! p =
              bounds_tbl (store s ! fst (slots (store s) (domains s) ! p))
                ! snd (slots (store s) (domains s) ! p) \<and>
            GlobalFitWrapper_bounds s ! p = ACCEPTABLE_BOUNDS ! snd (slots (store s) (domains s) ! p) \<and>
            domain_params s ! p =
              name (store s ! fst (slots (store s) (domains s) ! p)) @ '' '' @
              PARAMETER_LABELS ! snd (slots (store s) (domains s) ! p) \<and>
            (\<forall>x. cts \<noteq> [] \<and> n_free s \<le> length x \<longrightarrow>
               getattr (store (snd (GlobalFitWrapper_call RT s x)) ! fst (slots (store s) (domains s) ! p))
                 (PARAMETER_LABELS ! snd (slots (store s) (domains s) ! p)) = x ! p))"
proof -
  let ?sl = "slots (store s) (domains s)"
  from append_all_init [OF assms]
  have inv: "session_inv s" and reg: "registered s (map snd cts)"
    by simp_all
  have st: "store s = map instantiate (domain_types s)" and ds: "domains s = [0..<length (store s)]"
    and dt: "distinct (domain_types s)"
    using inv by (simp_all add: session_inv_def)
  have len: "length ?sl = n_free s"
    by (rule length_slots)
  have lb: "length (GlobalFitWrapper_bounds s) = n_free s"
    by (simp add: bounds_slots len)
  have lp: "length (domain_params s) = n_free s"
    by (simp add: params_slots len)
  have "map (\<lambda>a. length (used_variables (store s ! a))) (domains s)
        = map (\<lambda>c. length (used_variables (instantiate c))) (domain_types s)"
    by (rule nth_equalityI) (simp_all add: ds st)
  then have nf: "n_free s = sum_list (map (\<lambda>c. length (used_variables (instantiate c))) (domain_types s))"
    by (simp add: n_free_def)
  have pr: "proteins s \<noteq> []" if "cts \<noteq> []"
    using reg that by (auto simp add: registered_def dest: list_all2_lengthD)
  {
    fix p assume p: "p < n_free s"
    let ?a = "fst (?sl ! p)" and ?i = "snd (?sl ! p)"
    have psl: "p < length ?sl" using p len by simp
    then have "(?a, ?i) \<in> set ?sl"
      by (metis nth_mem prod.collapse)
    from slots_members [OF this] have a: "?a < length (store s)"
      by (simp add: ds)
    have b1: "GlobalFitWrapper_bounds s ! p = bounds_tbl (store s ! ?a) ! ?i"
      using psl by (simp add: bounds_slots split_beta)
    have "store s ! ?a = instantiate (domain_types s ! ?a)"
      using a st by (metis length_map nth_map)
    then have b2: "GlobalFitWrapper_bounds s ! p = ACCEPTABLE_BOUNDS ! ?i"
      using b1 by (simp add: instantiate_bounds_tbl)
    have b3: "domain_params s ! p = name (store s ! ?a) @ '' '' @ PARAMETER_LABELS ! ?i"
      using psl by (simp add: params_slots split_beta)
    have b4: "getattr (store (snd (GlobalFitWrapper_call RT s x)) ! ?a) (PARAMETER_LABELS ! ?i) = x ! p"
      if "cts \<noteq> []" "n_free s \<le> length x" for x
    proof -
      have "store (snd (GlobalFitWrapper_call RT s x)) = fst (assign_domains (store s) (domains s) x)"
        using pr [OF that(1)]
        by (simp add: GlobalFitWrapper_call_def split: prod.split option.split sum.split)
      then show ?thesis
        using assigned_slot [OF inv that(2) p] by simp
    qed
    note b1 b2 b3 b4
  }
  note pos = this
  from lb lp dt nf pos show ?thesis
    by blast
qed

theorem bounds_match_parameter_vector_witness:
  "(\<exists>s. append_all GlobalFitWrapper_init
     [(EquilibriumDenaturationCurve \<lparr>curve_ID = ''A'', curve_x = [0, 1], curve_y = [0, 1]\<rparr>,
       [CapDomain, RepeatDomain, RepeatDomain]),
      (EquilibriumDenaturationCurve \<lparr>curve_ID = ''B'', curve_x = [2], curve_y = [1]\<rparr>,
       [RepeatDomain, CapDomain])] = (Inr (), s) \<and>
     n_free s = 5 \<and> length (GlobalFitWrapper_bounds s) = 5 \<and>
     GlobalFitWrapper_bounds s ! 1 = (-3, -(1/100)) \<and>
     domain_params s ! 1 = ''Cap m_i'' \<and>
     getattr (store (snd (GlobalFitWrapper_call 1 s [10, 20, 30, 40, 50])) ! 0) ''m_i'' = 20)"
proof -
  let ?s = "\<lparr>store = [instantiate CapDomain, instantiate RepeatDomain],
       proteins =
         [\<lparr>protein_n = 3,
            protein_curve = \<lparr>curve_ID = ''A'', curve_x = [0, 1], curve_y = [0, 1]\<rparr>,
            protein_partition = \<lparr>topology = [0, 1, 1], n = 3\<rparr>\<rparr>,
          \<lparr>protein_n = 2,
            protein_curve = \<lparr>curve_ID = ''B'', curve_x = [2], curve_y = [1]\<rparr>,
            protein_partition = \<lparr>topology = [1, 0], n = 2\<rparr>\<rparr>],
       domains = [0, 1],
       domain_types = [CapDomain, RepeatDomain]\<rparr>"
  note inst = bounds_match_parameter_vector [OF example_session, of 1]
  have nf: "n_free ?s = 5"
    by (simp add: n_free_def IsingDomain_init_def)
  have sl: "slots (store ?s) (domains ?s) ! 1 = (0, 2)"
    by (simp add: slots_def IsingDomain_init_def)
  have p1: "1 < n_free ?s"
    unfolding nf by simp
  note len = inst [THEN conjunct1]
  note at1 = inst [THEN conjunct2, THEN conjunct2, THEN conjunct2, THEN conjunct2,
      rule_format, OF p1, unfolded sl fst_conv snd_conv]
  note b = at1 [THEN conjunct2, THEN conjunct1]
  note d = at1 [THEN conjunct2, THEN conjunct2, THEN conjunct1]
  note g = at1 [THEN conjunct2, THEN conjunct2, THEN conjunct2, rule_format,
      of "[10, 20, 30, 40, 50]"]
  have "GlobalFitWrapper_bounds ?s ! 1 = (-3, -(1/100))"
    using b by (simp add: ACCEPTABLE_BOUNDS_def)
  moreover have "domain_params ?s ! 1 = ''Cap m_i''"
    using d by (simp add: PARAMETER_LABELS_def IsingDomain_init_def)
  moreover have "getattr (store (snd (GlobalFitWrapper_call 1 ?s [10, 20, 30, 40, 50])) ! 0) ''m_i'' = 20"
    using g nf by (simp add: PARAMETER_LABELS_def)
  moreover have "length (GlobalFitWrapper_bounds ?s) = 5"
    using len nf by simp
  ultimately show ?thesis
    using example_session nf by simp
qed

section \<open>The error estimate\<close>

lemma jacobian_singular:
  "det (mat_dot (mat_T jac) jac) = 0 \<Longrightarrow>
     calculate_error_from_jacobian pinv jac residuals
       = Inr (replicate (length (concat jac)) PosInf)"
  by (simp add: calculate_error_from_jacobian_def)

lemma jacobian_single_row:
  "det (mat_dot (mat_T [row]) [row]) = 0 \<Longrightarrow>
     calculate_error_from_jacobian pinv [row] residuals = Inr (replicate (length row) PosInf)"
  by (simp add: calculate_error_from_jacobian_def)

lemma jacobian_identity_raises:
  "pinv [[1, 0], [0, 1]] = [[1, 0], [0, 1]] \<Longrightarrow>
     calculate_error_from_jacobian pinv [[1, 0], [0, 1]] residuals = Inl IndexError"
  by (simp add: calculate_error_from_jacobian_def mat_dot_def mat_T_def upt_rec del_col_def
      numeral_eq_Suc)

text \<open>
  C7, at a Jacobian of two residuals (rows) and two parameters (columns) whose second
  column is zero: the determinant of its product with its transpose is zero, and the
  function returns four infinite errors, one per entry of the Jacobian, where the
  claim has one per column. A Jacobian of a single row gets one error per column
  (\<open>jacobian_single_row\<close>).
\<close>

theorem zero_column_jacobian_errors:
  "det (mat_dot (mat_T [[1, 0], [2, 0]]) [[1, 0], [2, 0]]) = 0 \<and>
   length (hd [[1, 0], [2, 0 :: real]]) = 2 \<and>
   calculate_error_from_jacobian pinv [[1, 0], [2, 0]] residuals
     = Inr [PosInf, PosInf, PosInf, PosInf]"
  by (simp add: calculate_error_from_jacobian_def mat_dot_def mat_T_def upt_rec del_col_def
      numeral_eq_Suc)

end
